theory Spec2Isabelle
  imports Main "HOL-Library.Word"
begin

unbundle bit_operations_syntax

section \<open>I2C core OF support: drivers/i2c/i2c-core-of.c\<close>

text \<open>
  The file binds device-tree nodes to clients on the I2C bus. Embedded here are
  \<^verbatim>\<open>of_i2c_get_board_info\<close>, \<^verbatim>\<open>of_i2c_register_device\<close>, \<^verbatim>\<open>of_i2c_register_devices\<close>,
  the two match predicates, \<^verbatim>\<open>of_find_i2c_device_by_node\<close>,
  \<^verbatim>\<open>of_find_i2c_adapter_by_node\<close>, \<^verbatim>\<open>i2c_of_match_device_sysfs\<close> and \<^verbatim>\<open>of_i2c_notify\<close>.

  The file calls into the device tree, the driver core and the I2C core, and uses the
  constants of \<^verbatim>\<open>dt-bindings/i2c/i2c.h\<close> and \<^verbatim>\<open>linux/i2c.h\<close>; all of these are defined
  in other files. What the tree answers to a property read, whether the registrar accepts
  a descriptor, the string comparison and the constants are parameters of the functions
  that use them. The flag operations, the reference counts, the search of the bus, the
  type verification and the effect of creating and unregistering a client are modelled
  below as the interface they offer.
\<close>

subsection \<open>Data\<close>

type_synonym u32 = "32 word"
type_synonym u16 = "16 word"

text \<open>A \<^verbatim>\<open>struct device_node *\<close> that is not NULL: the node's address.\<close>

type_synonym node = nat

text \<open>
  The sentinel bits a \<^verbatim>\<open>reg\<close> cell may carry (\<^verbatim>\<open>I2C_TEN_BIT_ADDRESS\<close>,
  \<^verbatim>\<open>I2C_OWN_SLAVE_ADDRESS\<close>) and the client flag bits (\<^verbatim>\<open>I2C_CLIENT_*\<close>).
\<close>

record i2c_consts =
  I2C_TEN_BIT_ADDRESS :: u32
  I2C_OWN_SLAVE_ADDRESS :: u32
  I2C_CLIENT_TEN :: u16
  I2C_CLIENT_SLAVE :: u16
  I2C_CLIENT_HOST_NOTIFY :: u16
  I2C_CLIENT_WAKE :: u16

text \<open>
  The values the two headers give in Linux 5.3: bit 31 and bit 30 of the cell, and
  \<^verbatim>\<open>0x10\<close>, \<^verbatim>\<open>0x20\<close>, \<^verbatim>\<open>0x40\<close>, \<^verbatim>\<open>0x80\<close> for the flags.
\<close>

definition linux_consts :: i2c_consts where
  "linux_consts =
     \<lparr>I2C_TEN_BIT_ADDRESS = 0x80000000, I2C_OWN_SLAVE_ADDRESS = 0x40000000,
      I2C_CLIENT_TEN = 0x10, I2C_CLIENT_SLAVE = 0x20,
      I2C_CLIENT_HOST_NOTIFY = 0x40, I2C_CLIENT_WAKE = 0x80\<rparr>"

text \<open>
  \<^verbatim>\<open>struct i2c_board_info\<close>, the fields this file writes: \<^verbatim>\<open>type\<close> (a character
  array), \<^verbatim>\<open>flags\<close> and \<^verbatim>\<open>addr\<close> (both \<^verbatim>\<open>unsigned short\<close>) and \<^verbatim>\<open>of_node\<close>.
\<close>

record i2c_board_info =
  info_type :: string
  info_flags :: u16
  info_addr :: u16
  info_of_node :: node

text \<open>
  The device-tree service. \<open>of_modalias_node\<close> is \<open>None\<close> where the C function
  returns a negative value; \<open>of_property_read_u32\<close> gives the return code and the
  cell it stored; \<open>of_property_read_bool\<close> and \<open>of_get_property\<close> say whether the
  C call returned true, respectively a non-NULL pointer.
\<close>

record of_tree =
  of_modalias_node :: "node \<Rightarrow> string option"
  of_property_read_u32 :: "node \<Rightarrow> string \<Rightarrow> int \<times> u32"
  of_property_read_bool :: "node \<Rightarrow> string \<Rightarrow> bool"
  of_get_property :: "node \<Rightarrow> string \<Rightarrow> bool"
  node_parent :: "node \<Rightarrow> node option"
  node_children :: "node \<Rightarrow> node list"
  node_name :: "node \<Rightarrow> string"
  of_device_is_available :: "node \<Rightarrow> bool"

definition EINVAL :: int where
  "EINVAL = 22"

subsection \<open>of_i2c_get_board_info\<close>

text \<open>
  The result is \<open>Inl ret\<close> for a non-zero return value and \<open>Inr info\<close> for the
  return value 0 with \<open>info\<close> filled in. \<^verbatim>\<open>info->addr = addr\<close> stores a
  \<^verbatim>\<open>u32\<close> into an \<^verbatim>\<open>unsigned short\<close>: the conversion keeps the low 16 bits.
\<close>

definition of_i2c_get_board_info :: "i2c_consts \<Rightarrow> of_tree \<Rightarrow> node \<Rightarrow> int + i2c_board_info" where
  "of_i2c_get_board_info c t nd =
     (case of_modalias_node t nd of
        None \<Rightarrow> Inl (- EINVAL)
      | Some ty \<Rightarrow>
          (case of_property_read_u32 t nd ''reg'' of
             (ret, addr0) \<Rightarrow>
               if ret \<noteq> 0 then Inl ret
               else
                 let (addr1, flags1) =
                       (if addr0 AND I2C_TEN_BIT_ADDRESS c \<noteq> 0
                        then (addr0 AND NOT (I2C_TEN_BIT_ADDRESS c), 0 OR I2C_CLIENT_TEN c)
                        else (addr0, 0));
                     (addr2, flags2) =
                       (if addr1 AND I2C_OWN_SLAVE_ADDRESS c \<noteq> 0
                        then (addr1 AND NOT (I2C_OWN_SLAVE_ADDRESS c), flags1 OR I2C_CLIENT_SLAVE c)
                        else (addr1, flags1));
                     flags3 =
                       (if of_property_read_bool t nd ''host-notify''
                        then flags2 OR I2C_CLIENT_HOST_NOTIFY c else flags2);
                     flags4 =
                       (if of_get_property t nd ''wakeup-source''
                        then flags3 OR I2C_CLIENT_WAKE c else flags3)
                 in Inr \<lparr>info_type = ty, info_flags = flags4, info_addr = ucast addr2,
                         info_of_node = nd\<rparr>))"

subsection \<open>i2c_of_match_device_sysfs\<close>

text \<open>\<^verbatim>\<open>struct of_device_id\<close>: the matcher reads the \<^verbatim>\<open>compatible\<close> string only.\<close>

record of_device_id =
  compatible :: string

text \<open>
  \<^verbatim>\<open>strchr(s, c)\<close> for a character \<open>c\<close> other than NUL: the rest of \<open>s\<close> from the
  first \<open>c\<close> on, or \<open>None\<close> for NULL.
\<close>

definition strchr :: "string \<Rightarrow> char \<Rightarrow> string option" where
  "strchr s c = (case dropWhile (\<lambda>x. x \<noteq> c) s of [] \<Rightarrow> None | r # rs \<Rightarrow> Some (r # rs))"

text \<open>
  The string the second comparison uses: \<^verbatim>\<open>name = strchr(compatible, ',')\<close>, then
  \<^verbatim>\<open>name = compatible\<close> if that is NULL and \<^verbatim>\<open>name++\<close> otherwise.
\<close>

definition sysfs_name :: "string \<Rightarrow> string" where
  "sysfs_name cstr = (case strchr cstr CHR '','' of None \<Rightarrow> cstr | Some r \<Rightarrow> tl r)"

text \<open>
  The table is an array that ends at the first entry whose \<^verbatim>\<open>compatible\<close> is empty; the
  list is the array, and the end of the list stops the loop as that entry does. The
  comparison \<^verbatim>\<open>sysfs_streq\<close> is the parameter \<open>streq\<close>. The result is the index of the
  entry returned (\<open>None\<close> for NULL), together with the strings that were compared with
  \<^verbatim>\<open>client->name\<close>, in the order of the calls.
\<close>

fun i2c_of_match_device_sysfs ::
  "(string \<Rightarrow> string \<Rightarrow> bool) \<Rightarrow> of_device_id list \<Rightarrow> string \<Rightarrow> nat option \<times> string list" where
  "i2c_of_match_device_sysfs streq [] client_name = (None, [])"
| "i2c_of_match_device_sysfs streq (m # ms) client_name =
     (if compatible m = [] then (None, [])
      else if streq client_name (compatible m) then (Some 0, [compatible m])
      else if streq client_name (sysfs_name (compatible m))
        then (Some 0, [compatible m, sysfs_name (compatible m)])
      else (case i2c_of_match_device_sysfs streq ms client_name of
              (r, cmps) \<Rightarrow> (map_option Suc r, compatible m # sysfs_name (compatible m) # cmps)))"

text \<open>
  \<^verbatim>\<open>sysfs_streq\<close> as lib/string.c has it: the two strings are equal, or one of them is
  the other followed by a single newline. It instantiates \<open>streq\<close> at concrete inputs.
\<close>

fun sysfs_streq :: "string \<Rightarrow> string \<Rightarrow> bool" where
  "sysfs_streq [] [] = True"
| "sysfs_streq [] (b # bs) = (b = CHR 0x0A \<and> bs = [])"
| "sysfs_streq (a # as) [] = (a = CHR 0x0A \<and> as = [])"
| "sysfs_streq (a # as) (b # bs) = (if a = b then sysfs_streq as bs else False)"



subsection \<open>Devices, the bus and the state\<close>

text \<open>
  A \<^verbatim>\<open>struct device\<close> on the I2C bus: its address, its \<^verbatim>\<open>of_node\<close> (\<open>None\<close> for
  NULL), its \<^verbatim>\<open>parent\<close> and what \<^verbatim>\<open>dev->type\<close> says it is. A client carries the
  descriptor it was created from.
\<close>

datatype dev_kind = I2C_CLIENT i2c_board_info | I2C_ADAPTER | OTHER_DEVICE

datatype device =
  Device (dev_id: nat) (dev_of_node: "node option") (dev_parent: "device option")
    (dev_kind: dev_kind)

text \<open>The calls into the descriptor builder, the registrar and the registry, as a trace.\<close>

datatype call =
    GET_BOARD_INFO node
  | I2C_NEW_DEVICE nat i2c_board_info
  | I2C_UNREGISTER_DEVICE nat
  | BUS_FIND_DEVICE "node option"

text \<open>
  The state the functions of this file read and write: the nodes whose \<^verbatim>\<open>OF_POPULATED\<close>
  flag is set, the devices on \<^verbatim>\<open>i2c_bus_type\<close> in the order of the bus's list, the
  reference count of each device and the trace of calls. Reference counts of nodes
  (\<^verbatim>\<open>of_node_get\<close>, \<^verbatim>\<open>of_node_put\<close>) are not part of the state.
\<close>

record i2c_state =
  of_populated :: "node set"
  bus_devices :: "device list"
  refcount :: "nat \<Rightarrow> int"
  calls :: "call list"

definition log_call :: "call \<Rightarrow> i2c_state \<Rightarrow> i2c_state" where
  "log_call k s = s\<lparr>calls := calls s @ [k]\<rparr>"

text \<open>
  Modelled from the spec: the flag operations of the tree service on the Claim Flag
  (\<^verbatim>\<open>of_node_test_and_set_flag\<close>, \<^verbatim>\<open>of_node_clear_flag\<close>, \<^verbatim>\<open>of_node_check_flag\<close> with
  \<^verbatim>\<open>OF_POPULATED\<close>). The test-and-set returns the old value and sets the flag.
\<close>

definition of_node_test_and_set_flag :: "node \<Rightarrow> i2c_state \<Rightarrow> bool \<times> i2c_state" where
  "of_node_test_and_set_flag nd s = (nd \<in> of_populated s, s\<lparr>of_populated := insert nd (of_populated s)\<rparr>)"

definition of_node_clear_flag :: "node \<Rightarrow> i2c_state \<Rightarrow> i2c_state" where
  "of_node_clear_flag nd s = s\<lparr>of_populated := of_populated s - {nd}\<rparr>"

definition of_node_check_flag :: "node \<Rightarrow> i2c_state \<Rightarrow> bool" where
  "of_node_check_flag nd s = (nd \<in> of_populated s)"

text \<open>
  Modelled from the spec: \<^verbatim>\<open>get_device\<close> and \<^verbatim>\<open>put_device\<close>, the acquire and release of
  one reference to a registry object.
\<close>

definition get_device :: "device \<Rightarrow> i2c_state \<Rightarrow> i2c_state" where
  "get_device d s = s\<lparr>refcount := (refcount s)(dev_id d := refcount s (dev_id d) + 1)\<rparr>"

definition put_device :: "device \<Rightarrow> i2c_state \<Rightarrow> i2c_state" where
  "put_device d s = s\<lparr>refcount := (refcount s)(dev_id d := refcount s (dev_id d) - 1)\<rparr>"

text \<open>
  Modelled from the spec: \<^verbatim>\<open>bus_find_device\<close>, the registry's find-device-by-predicate. It
  returns the first device of the bus that the predicate accepts, with its reference
  count incremented, or NULL.
\<close>

definition bus_find_device ::
  "node option \<Rightarrow> (device \<Rightarrow> node option \<Rightarrow> bool) \<Rightarrow> i2c_state \<Rightarrow> device option \<times> i2c_state" where
  "bus_find_device data match s =
     (case find (\<lambda>d. match d data) (bus_devices s) of
        None \<Rightarrow> (None, log_call (BUS_FIND_DEVICE data) s)
      | Some d \<Rightarrow> (Some d, get_device d (log_call (BUS_FIND_DEVICE data) s)))"

text \<open>
  Modelled from the spec: the type verification of a registry object
  (\<^verbatim>\<open>i2c_verify_client\<close>, \<^verbatim>\<open>i2c_verify_adapter\<close>): the object itself if it is of the
  requested type, NULL otherwise.
\<close>

definition i2c_verify_client :: "device \<Rightarrow> device option" where
  "i2c_verify_client d = (case dev_kind d of I2C_CLIENT info \<Rightarrow> Some d | _ \<Rightarrow> None)"

definition i2c_verify_adapter :: "device \<Rightarrow> device option" where
  "i2c_verify_adapter d = (case dev_kind d of I2C_ADAPTER \<Rightarrow> Some d | _ \<Rightarrow> None)"

text \<open>
  Modelled from the spec: the Device Registrar's create-device (\<^verbatim>\<open>i2c_new_device\<close>).
  Whether the registry accepts the descriptor is the registrar's decision, the parameter
  \<open>reg\<close>: it answers with the address of the new client, or \<open>None\<close> for NULL. An
  accepted client joins the bus with the descriptor's node as its \<^verbatim>\<open>of_node\<close>, the
  adapter as its parent and one reference held by the registry.
\<close>

type_synonym registrar = "device list \<Rightarrow> device \<Rightarrow> i2c_board_info \<Rightarrow> nat option"

definition i2c_new_device ::
  "registrar \<Rightarrow> device \<Rightarrow> i2c_board_info \<Rightarrow> i2c_state \<Rightarrow> device option \<times> i2c_state" where
  "i2c_new_device reg adap info s =
     (case reg (bus_devices s) adap info of
        None \<Rightarrow> (None, log_call (I2C_NEW_DEVICE (dev_id adap) info) s)
      | Some p \<Rightarrow>
          (let client = Device p (Some (info_of_node info)) (Some adap) (I2C_CLIENT info)
           in (Some client,
               (log_call (I2C_NEW_DEVICE (dev_id adap) info) s)
                 \<lparr>bus_devices := bus_devices s @ [client],
                  refcount := (refcount s)(p := 1)\<rparr>)))"

text \<open>
  Modelled from the spec: the Device Registrar's unregister (\<^verbatim>\<open>i2c_unregister_device\<close>),
  which takes the client off the bus, clears the Claim Flag of the client's node as part
  of the teardown and drops the registry's reference.
\<close>

definition i2c_unregister_device :: "device \<Rightarrow> i2c_state \<Rightarrow> i2c_state" where
  "i2c_unregister_device client s =
     (log_call (I2C_UNREGISTER_DEVICE (dev_id client)) s)
       \<lparr>of_populated := (case dev_of_node client of
                           None \<Rightarrow> of_populated s
                         | Some nd \<Rightarrow> of_populated s - {nd}),
        bus_devices := remove1 client (bus_devices s),
        refcount := (refcount s)(dev_id client := refcount s (dev_id client) - 1)\<rparr>"

text \<open>
  Modelled from the spec: the tree service's named-child lookup (\<^verbatim>\<open>of_get_child_by_name\<close>)
  and its child iteration restricted to available nodes, in tree order
  (\<^verbatim>\<open>for_each_available_child_of_node\<close>).
\<close>

definition of_get_child_by_name :: "of_tree \<Rightarrow> node \<Rightarrow> string \<Rightarrow> node option" where
  "of_get_child_by_name t nd name = find (\<lambda>ch. node_name t ch = name) (node_children t nd)"

definition available_children :: "of_tree \<Rightarrow> node \<Rightarrow> node list" where
  "available_children t nd = filter (of_device_is_available t) (node_children t nd)"

subsection \<open>of_i2c_register_device and of_i2c_register_devices\<close>

text \<open>
  The result \<open>Inl ret\<close> is the pointer \<^verbatim>\<open>ERR_PTR(ret)\<close> and \<open>Inr client\<close> is the
  client. \<^verbatim>\<open>IS_ERR\<close> holds of the pointers \<^verbatim>\<open>ERR_PTR(ret)\<close> with \<open>ret\<close> in
  \<open>- MAX_ERRNO .. - 1\<close> (\<^verbatim>\<open>MAX_ERRNO\<close> is 4095) and of no client; \<^verbatim>\<open>PTR_ERR\<close> reads
  the pointer as a number.
\<close>

definition MAX_ERRNO :: int where
  "MAX_ERRNO = 4095"

definition IS_ERR :: "int + device \<Rightarrow> bool" where
  "IS_ERR ptr = (case ptr of Inl ret \<Rightarrow> - MAX_ERRNO \<le> ret \<and> ret < 0 | Inr client \<Rightarrow> False)"

definition PTR_ERR :: "int + device \<Rightarrow> int" where
  "PTR_ERR ptr = (case ptr of Inl ret \<Rightarrow> ret | Inr client \<Rightarrow> int (dev_id client))"

definition of_i2c_register_device ::
  "i2c_consts \<Rightarrow> of_tree \<Rightarrow> registrar \<Rightarrow> device \<Rightarrow> node \<Rightarrow> i2c_state \<Rightarrow> (int + device) \<times> i2c_state" where
  "of_i2c_register_device c t reg adap nd s =
     (case of_i2c_get_board_info c t nd of
        Inl ret \<Rightarrow> (Inl ret, log_call (GET_BOARD_INFO nd) s)
      | Inr info \<Rightarrow>
          (case i2c_new_device reg adap info (log_call (GET_BOARD_INFO nd) s) of
             (None, s') \<Rightarrow> (Inl (- EINVAL), s')
           | (Some client, s') \<Rightarrow> (Inr client, s')))"

text \<open>The body of the loop over the available children, for one child.\<close>

definition register_child ::
  "i2c_consts \<Rightarrow> of_tree \<Rightarrow> registrar \<Rightarrow> device \<Rightarrow> node \<Rightarrow> i2c_state \<Rightarrow> i2c_state" where
  "register_child c t reg adap nd s =
     (case of_node_test_and_set_flag nd s of
        (was_set, s1) \<Rightarrow>
          if was_set then s1
          else (case of_i2c_register_device c t reg adap nd s1 of
                  (client, s2) \<Rightarrow>
                    if IS_ERR client then of_node_clear_flag nd s2 else s2))"

fun register_children ::
  "i2c_consts \<Rightarrow> of_tree \<Rightarrow> registrar \<Rightarrow> device \<Rightarrow> node list \<Rightarrow> i2c_state \<Rightarrow> i2c_state" where
  "register_children c t reg adap [] s = s"
| "register_children c t reg adap (nd # nds) s =
     register_children c t reg adap nds (register_child c t reg adap nd s)"

definition of_i2c_register_devices ::
  "i2c_consts \<Rightarrow> of_tree \<Rightarrow> registrar \<Rightarrow> device \<Rightarrow> i2c_state \<Rightarrow> i2c_state" where
  "of_i2c_register_devices c t reg adap s =
     (case dev_of_node adap of
        None \<Rightarrow> s
      | Some an \<Rightarrow>
          (let bus = (case of_get_child_by_name t an ''i2c-bus'' of
                        None \<Rightarrow> an
                      | Some b \<Rightarrow> b)
           in register_children c t reg adap (available_children t bus) s))"

subsection \<open>Lookups by node\<close>

definition of_dev_node_match :: "device \<Rightarrow> node option \<Rightarrow> bool" where
  "of_dev_node_match dev data = (dev_of_node dev = data)"

definition of_dev_or_parent_node_match :: "device \<Rightarrow> node option \<Rightarrow> bool" where
  "of_dev_or_parent_node_match dev data =
     (if dev_of_node dev = data then True
      else (case dev_parent dev of
              Some p \<Rightarrow> dev_of_node p = data
            | None \<Rightarrow> False))"

definition of_find_i2c_device_by_node :: "node option \<Rightarrow> i2c_state \<Rightarrow> device option \<times> i2c_state" where
  "of_find_i2c_device_by_node nd s =
     (case bus_find_device nd of_dev_node_match s of
        (None, s1) \<Rightarrow> (None, s1)
      | (Some dev, s1) \<Rightarrow>
          (case i2c_verify_client dev of
             None \<Rightarrow> (None, put_device dev s1)
           | Some client \<Rightarrow> (Some client, s1)))"

definition of_find_i2c_adapter_by_node :: "node option \<Rightarrow> i2c_state \<Rightarrow> device option \<times> i2c_state" where
  "of_find_i2c_adapter_by_node nd s =
     (case bus_find_device nd of_dev_or_parent_node_match s of
        (None, s1) \<Rightarrow> (None, s1)
      | (Some dev, s1) \<Rightarrow>
          (case i2c_verify_adapter dev of
             None \<Rightarrow> (None, put_device dev s1)
           | Some adapter \<Rightarrow> (Some adapter, s1)))"

subsection \<open>of_i2c_notify\<close>

text \<open>
  What \<^verbatim>\<open>of_reconfig_get_state_change(action, rd)\<close> answered is the argument \<open>change\<close>;
  \<open>dn\<close> is \<^verbatim>\<open>rd->dn\<close>. The return value is \<^verbatim>\<open>NOTIFY_OK\<close> or what
  \<^verbatim>\<open>notifier_from_errno\<close> makes of the error code. In the add branch a result of
  \<^verbatim>\<open>of_i2c_register_device\<close> that is not \<^verbatim>\<open>IS_ERR\<close> leaves the \<^verbatim>\<open>switch\<close> by
  \<^verbatim>\<open>break\<close>, with the flag as the test-and-set left it.
\<close>

datatype of_reconfig_change =
  OF_RECONFIG_CHANGE_ADD | OF_RECONFIG_CHANGE_REMOVE | OF_RECONFIG_NO_CHANGE

datatype notify_result = NOTIFY_OK | NOTIFIER_FROM_ERRNO int

definition of_i2c_notify ::
  "i2c_consts \<Rightarrow> of_tree \<Rightarrow> registrar \<Rightarrow> of_reconfig_change \<Rightarrow> node \<Rightarrow> i2c_state
     \<Rightarrow> notify_result \<times> i2c_state" where
  "of_i2c_notify c t reg change dn s =
     (case change of
        OF_RECONFIG_CHANGE_ADD \<Rightarrow>
          (case of_find_i2c_adapter_by_node (node_parent t dn) s of
             (None, s1) \<Rightarrow> (NOTIFY_OK, s1)
           | (Some adap, s1) \<Rightarrow>
               (case of_node_test_and_set_flag dn s1 of
                  (was_set, s2) \<Rightarrow>
                    if was_set then (NOTIFY_OK, put_device adap s2)
                    else (case of_i2c_register_device c t reg adap dn s2 of
                            (client, s3) \<Rightarrow>
                              if IS_ERR client
                              then (NOTIFIER_FROM_ERRNO (PTR_ERR client),
                                    of_node_clear_flag dn (put_device adap s3))
                              else (NOTIFY_OK, put_device adap s3))))
      | OF_RECONFIG_CHANGE_REMOVE \<Rightarrow>
          if \<not> of_node_check_flag dn s then (NOTIFY_OK, s)
          else (case of_find_i2c_device_by_node (Some dn) s of
                  (None, s1) \<Rightarrow> (NOTIFY_OK, s1)
                | (Some client, s1) \<Rightarrow>
                    (NOTIFY_OK, put_device client (i2c_unregister_device client s1)))
      | OF_RECONFIG_NO_CHANGE \<Rightarrow> (NOTIFY_OK, s))"

subsection \<open>Notions the properties are stated with\<close>

text \<open>
  An entry of the table satisfies one of the two comparisons; the comparisons the loop
  body makes for one entry; the entries before the terminating one.
\<close>

definition sysfs_hit :: "(string \<Rightarrow> string \<Rightarrow> bool) \<Rightarrow> string \<Rightarrow> of_device_id \<Rightarrow> bool" where
  "sysfs_hit streq client_name m =
     (streq client_name (compatible m) \<or> streq client_name (sysfs_name (compatible m)))"

definition sysfs_comparisons :: "(string \<Rightarrow> string \<Rightarrow> bool) \<Rightarrow> string \<Rightarrow> of_device_id \<Rightarrow> string list" where
  "sysfs_comparisons streq client_name m =
     (if streq client_name (compatible m) then [compatible m]
      else [compatible m, sysfs_name (compatible m)])"

definition live_entries :: "of_device_id list \<Rightarrow> of_device_id list" where
  "live_entries ms = takeWhile (\<lambda>m. compatible m \<noteq> []) ms"

text \<open>The clients on the bus that were instantiated for a node: its Live Devices.\<close>

definition is_client :: "device \<Rightarrow> bool" where
  "is_client d = (case dev_kind d of I2C_CLIENT info \<Rightarrow> True | _ \<Rightarrow> False)"

definition clients_of :: "i2c_state \<Rightarrow> node \<Rightarrow> device list" where
  "clients_of s nd = filter (\<lambda>d. dev_of_node d = Some nd \<and> is_client d) (bus_devices s)"

text \<open>
  The node a descriptor build or a registration call is about, and the calls made
  between two states.
\<close>

definition call_node :: "call \<Rightarrow> node option" where
  "call_node k =
     (case k of
        GET_BOARD_INFO nd \<Rightarrow> Some nd
      | I2C_NEW_DEVICE a info \<Rightarrow> Some (info_of_node info)
      | _ \<Rightarrow> None)"

definition new_calls :: "i2c_state \<Rightarrow> i2c_state \<Rightarrow> call list" where
  "new_calls s s' = drop (length (calls s)) (calls s')"

text \<open>
  Every client on the bus sits on a claimed node and is the only client of that node.
\<close>

definition one_device_per_node :: "i2c_state \<Rightarrow> bool" where
  "one_device_per_node s =
     (\<forall>d \<in> set (bus_devices s).
        is_client d \<longrightarrow>
          (case dev_of_node d of
             None \<Rightarrow> True
           | Some nd \<Rightarrow> nd \<in> of_populated s \<and> length (clients_of s nd) = 1))"

text \<open>
  The descriptor build for the node returns 0 or an error code, a value in
  \<open>- MAX_ERRNO .. - 1\<close>, as the reads of the tree service do.
\<close>

definition build_returns_errno :: "i2c_consts \<Rightarrow> of_tree \<Rightarrow> node \<Rightarrow> bool" where
  "build_returns_errno c t nd =
     (case of_i2c_get_board_info c t nd of
        Inl ret \<Rightarrow> - MAX_ERRNO \<le> ret \<and> ret < 0
      | Inr info \<Rightarrow> True)"

text \<open>
  A claim-and-register attempt on the node fails in this state: the descriptor build
  fails with an error code, or the registrar returns no device for the descriptor.
\<close>

definition registration_fails ::
  "i2c_consts \<Rightarrow> of_tree \<Rightarrow> registrar \<Rightarrow> device \<Rightarrow> node \<Rightarrow> i2c_state \<Rightarrow> bool" where
  "registration_fails c t reg adap nd s =
     (case of_i2c_get_board_info c t nd of
        Inl ret \<Rightarrow> - MAX_ERRNO \<le> ret \<and> ret < 0
      | Inr info \<Rightarrow> reg (bus_devices s) adap info = None)"

text \<open>The children the bulk walk of an adapter visits, in the order of the walk.\<close>

definition walked_children :: "of_tree \<Rightarrow> device \<Rightarrow> node list" where
  "walked_children t adap =
     (case dev_of_node adap of
        None \<Rightarrow> []
      | Some an \<Rightarrow>
          available_children t
            (case of_get_child_by_name t an ''i2c-bus'' of None \<Rightarrow> an | Some b \<Rightarrow> b))"

subsection \<open>A concrete tree, bus and table\<close>

text \<open>
  The adapter's node is 1. Its child 2 is named \<^verbatim>\<open>i2c-bus\<close> and has the children 3
  (enabled) and 4 (disabled); node 5 is a child of node 1. Every node reads the type
  \<^verbatim>\<open>eeprom\<close>, the given \<^verbatim>\<open>reg\<close> cell and the given \<^verbatim>\<open>host-notify\<close>, and has no
  \<^verbatim>\<open>wakeup-source\<close>.
\<close>

definition demo_tree :: "u32 \<Rightarrow> bool \<Rightarrow> of_tree" where
  "demo_tree raw hn =
     \<lparr>of_modalias_node = (\<lambda>nd. Some ''eeprom''),
      of_property_read_u32 = (\<lambda>nd name. (0, raw)),
      of_property_read_bool = (\<lambda>nd name. hn),
      of_get_property = (\<lambda>nd name. False),
      node_parent = (\<lambda>nd. if nd = 2 \<or> nd = 5 then Some 1
                            else if nd = 3 \<or> nd = 4 then Some 2 else None),
      node_children = (\<lambda>nd. if nd = 1 then [2, 5] else if nd = 2 then [3, 4] else []),
      node_name = (\<lambda>nd. if nd = 2 then ''i2c-bus'' else ''eeprom''),
      of_device_is_available = (\<lambda>nd. nd \<noteq> 4)\<rparr>"

text \<open>
  The same tree with the disabled child first under the \<^verbatim>\<open>i2c-bus\<close> node, and the same
  tree whose \<^verbatim>\<open>reg\<close> read returns the given code.
\<close>

definition demo_tree_disabled_first :: "u32 \<Rightarrow> bool \<Rightarrow> of_tree" where
  "demo_tree_disabled_first raw hn =
     (demo_tree raw hn)
       \<lparr>node_children := (\<lambda>nd. if nd = 1 then [2, 5] else if nd = 2 then [4, 3] else [])\<rparr>"

definition demo_tree_reg_error :: "int \<Rightarrow> of_tree" where
  "demo_tree_reg_error ret =
     (demo_tree 0 False)\<lparr>of_property_read_u32 := (\<lambda>nd name. (ret, 0))\<rparr>"

definition demo_adapter :: device where
  "demo_adapter = Device 10 (Some 1) None I2C_ADAPTER"

definition accept_all :: registrar where
  "accept_all devs adap info = Some (100 + length devs)"

definition reject_all :: registrar where
  "reject_all devs adap info = None"

definition demo_state :: i2c_state where
  "demo_state =
     \<lparr>of_populated = {}, bus_devices = [demo_adapter], refcount = (\<lambda>p. 1), calls = []\<rparr>"

definition demo_table :: "of_device_id list" where
  "demo_table = [\<lparr>compatible = ''acme,bar''\<rparr>, \<lparr>compatible = ''vend,foo-dev''\<rparr>,
                 \<lparr>compatible = ''foo-dev''\<rparr>, \<lparr>compatible = []\<rparr>]"

text \<open>The same bus with a client for node 3 on it, and node 3 claimed.\<close>

definition demo_client :: device where
  "demo_client = Device 20 (Some 3) (Some demo_adapter)
     (I2C_CLIENT \<lparr>info_type = ''eeprom'', info_flags = 0, info_addr = 0x50, info_of_node = 3\<rparr>)"

definition demo_state_claimed :: i2c_state where
  "demo_state_claimed =
     \<lparr>of_populated = {3}, bus_devices = [demo_adapter, demo_client], refcount = (\<lambda>p. 1),
      calls = []\<rparr>"

section \<open>The descriptor builder\<close>

lemma word_or_and_absorb: "(x OR y) AND y = (y::'a::len word)"
  by (auto simp: bit_eq_iff bit_and_iff bit_or_iff)

lemma word_or_and_keep: "x AND f = f \<Longrightarrow> (x OR y) AND f = (f::'a::len word)"
  by (auto simp: bit_eq_iff bit_and_iff bit_or_iff)

lemma word_or_and_disj: "y AND f = 0 \<Longrightarrow> (x OR y) AND f = x AND (f::'a::len word)"
  by (auto simp: bit_eq_iff bit_and_iff bit_or_iff)

lemma and_not_and_disj: "a AND b = 0 \<Longrightarrow> (x AND NOT a) AND b = x AND (b::'a::len word)"
  by (auto simp: bit_eq_iff bit_and_iff bit_not_iff)

text \<open>
  C3, as the claim states it, fails: the descriptor's address is an \<^verbatim>\<open>unsigned short\<close>,
  so a raw cell with both sentinel bits and bit 16 set (\<^verbatim>\<open>0xC0010050\<close>, with the
  sentinels at bits 31 and 30) gives the address \<^verbatim>\<open>0x50\<close>, while the cell with both
  sentinels cleared is \<^verbatim>\<open>0x10050\<close>. Both flags are set.
\<close>

theorem both_sentinels_address_truncated:
  "of_i2c_get_board_info linux_consts (demo_tree 0xC0010050 False) 3
     = Inr \<lparr>info_type = ''eeprom'', info_flags = 0x30, info_addr = 0x50, info_of_node = 3\<rparr>
   \<and> ((0xC0010050 AND NOT (I2C_TEN_BIT_ADDRESS linux_consts))
         AND NOT (I2C_OWN_SLAVE_ADDRESS linux_consts)) = (0x10050 :: u32)
   \<and> unat (0x50 :: u16) \<noteq> unat (0x10050 :: u32)"
  by (simp add: of_i2c_get_board_info_def demo_tree_def linux_consts_def)

text \<open>
  C3, amended: for every raw address cell, with two sentinels that have no bit in common,
  the builder produces a descriptor whose ten-bit-address flag is set when the
  ten-bit-address sentinel is set in the cell, whatever the own-slave-address sentinel
  is, and whose own-slave-address flag is set when the own-slave-address sentinel is set
  in the cell, whatever the ten-bit-address sentinel is; so a cell with both sentinels
  gives both flags. A flag whose sentinel is not in the cell is clear (when it shares no
  bit with the other client flags). The address is the low 16 bits of the cell with both
  sentinels cleared.
\<close>

theorem sentinels_decoded_independently:
  assumes "of_modalias_node t nd = Some ty"
    and "of_property_read_u32 t nd ''reg'' = (0, raw)"
    and "I2C_TEN_BIT_ADDRESS c AND I2C_OWN_SLAVE_ADDRESS c = 0"
  shows "\<exists>info. of_i2c_get_board_info c t nd = Inr info
           \<and> (raw AND I2C_TEN_BIT_ADDRESS c \<noteq> 0
                \<longrightarrow> info_flags info AND I2C_CLIENT_TEN c = I2C_CLIENT_TEN c)
           \<and> (raw AND I2C_OWN_SLAVE_ADDRESS c \<noteq> 0
                \<longrightarrow> info_flags info AND I2C_CLIENT_SLAVE c = I2C_CLIENT_SLAVE c)
           \<and> (raw AND I2C_TEN_BIT_ADDRESS c = 0
                \<and> I2C_CLIENT_SLAVE c AND I2C_CLIENT_TEN c = 0
                \<and> I2C_CLIENT_HOST_NOTIFY c AND I2C_CLIENT_TEN c = 0
                \<and> I2C_CLIENT_WAKE c AND I2C_CLIENT_TEN c = 0
                \<longrightarrow> info_flags info AND I2C_CLIENT_TEN c = 0)
           \<and> (raw AND I2C_OWN_SLAVE_ADDRESS c = 0
                \<and> I2C_CLIENT_TEN c AND I2C_CLIENT_SLAVE c = 0
                \<and> I2C_CLIENT_HOST_NOTIFY c AND I2C_CLIENT_SLAVE c = 0
                \<and> I2C_CLIENT_WAKE c AND I2C_CLIENT_SLAVE c = 0
                \<longrightarrow> info_flags info AND I2C_CLIENT_SLAVE c = 0)
           \<and> info_addr info =
               ucast ((raw AND NOT (I2C_TEN_BIT_ADDRESS c)) AND NOT (I2C_OWN_SLAVE_ADDRESS c))"
proof -
  let ?T = "I2C_TEN_BIT_ADDRESS c" and ?O = "I2C_OWN_SLAVE_ADDRESS c"
  have own: "(raw AND NOT ?T) AND ?O = raw AND ?O"
    using assms(3) by (simp add: and_not_and_disj)
  have keep_t: "raw AND ?T = 0 \<Longrightarrow> raw AND NOT ?T = raw"
    by (auto simp: bit_eq_iff bit_and_iff bit_not_iff)
  have keep_o: "raw AND ?O = 0 \<Longrightarrow> x AND ?O = raw AND ?O \<Longrightarrow> x AND NOT ?O = x" for x
    by (auto simp: bit_eq_iff bit_and_iff bit_not_iff)
  show ?thesis
  proof (cases "raw AND ?T = 0")
    case True
    note t0 = True
    show ?thesis
    proof (cases "raw AND ?O = 0")
      case True
      with t0 assms(1,2) show ?thesis
        by (simp add: of_i2c_get_board_info_def Let_def keep_t word_or_and_disj
              keep_o [of raw])
    next
      case False
      with t0 assms(1,2) show ?thesis
        by (simp add: of_i2c_get_board_info_def Let_def keep_t word_or_and_absorb
              word_or_and_keep word_or_and_disj)
    qed
  next
    case False
    note t1 = False
    show ?thesis
    proof (cases "raw AND ?O = 0")
      case True
      with t1 assms(1,2) own show ?thesis
        by (simp add: of_i2c_get_board_info_def Let_def word_or_and_absorb
              word_or_and_keep word_or_and_disj keep_o [of "raw AND NOT ?T"])
    next
      case False
      with t1 assms(1,2) own show ?thesis
        by (simp add: of_i2c_get_board_info_def Let_def word_or_and_absorb word_or_and_keep)
    qed
  qed
qed

theorem sentinels_decoded_independently_witness:
  "(\<exists>info. of_i2c_get_board_info linux_consts (demo_tree 0xC0000050 False) 3 = Inr info
      \<and> info_flags info AND 0x10 = 0x10 \<and> info_flags info AND 0x20 = 0x20
      \<and> info_addr info = 0x50)
   \<and> (\<exists>info. of_i2c_get_board_info linux_consts (demo_tree 0x80000050 False) 3 = Inr info
      \<and> info_flags info AND 0x10 = 0x10 \<and> info_flags info AND 0x20 = 0
      \<and> info_addr info = 0x50)
   \<and> (\<exists>info. of_i2c_get_board_info linux_consts (demo_tree 0x40000050 False) 3 = Inr info
      \<and> info_flags info AND 0x20 = 0x20 \<and> info_flags info AND 0x10 = 0
      \<and> info_addr info = 0x50)
   \<and> (\<exists>info. of_i2c_get_board_info linux_consts (demo_tree 0x50 False) 3 = Inr info
      \<and> info_flags info AND 0x10 = 0 \<and> info_flags info AND 0x20 = 0
      \<and> info_addr info = 0x50)"
proof -
  have d: "I2C_TEN_BIT_ADDRESS linux_consts AND I2C_OWN_SLAVE_ADDRESS linux_consts = 0"
    by (simp add: linux_consts_def)
  have m: "of_modalias_node (demo_tree raw False) 3 = Some ''eeprom''"
    and r: "of_property_read_u32 (demo_tree raw False) 3 ''reg'' = (0, raw)" for raw
    by (simp_all add: demo_tree_def)
  have both: "\<exists>info. of_i2c_get_board_info linux_consts (demo_tree 0xC0000050 False) 3 = Inr info
      \<and> info_flags info AND 0x10 = 0x10 \<and> info_flags info AND 0x20 = 0x20
      \<and> info_addr info = 0x50"
    using sentinels_decoded_independently [OF m r d, of "0xC0000050"]
    by (simp add: linux_consts_def)
  have ten: "\<exists>info. of_i2c_get_board_info linux_consts (demo_tree 0x80000050 False) 3 = Inr info
      \<and> info_flags info AND 0x10 = 0x10 \<and> info_flags info AND 0x20 = 0
      \<and> info_addr info = 0x50"
    using sentinels_decoded_independently [OF m r d, of "0x80000050"]
    by (simp add: linux_consts_def)
  have own: "\<exists>info. of_i2c_get_board_info linux_consts (demo_tree 0x40000050 False) 3 = Inr info
      \<and> info_flags info AND 0x20 = 0x20 \<and> info_flags info AND 0x10 = 0
      \<and> info_addr info = 0x50"
    using sentinels_decoded_independently [OF m r d, of "0x40000050"]
    by (simp add: linux_consts_def)
  have none: "\<exists>info. of_i2c_get_board_info linux_consts (demo_tree 0x50 False) 3 = Inr info
      \<and> info_flags info AND 0x10 = 0 \<and> info_flags info AND 0x20 = 0
      \<and> info_addr info = 0x50"
    using sentinels_decoded_independently [OF m r d, of "0x50"]
    by (simp add: linux_consts_def)
  from both ten own none show ?thesis by (intro conjI)
qed

text \<open>
  C5: for every node whose type and address read well, the builder sets the host-notify
  flag on the descriptor exactly when the boolean read of \<^verbatim>\<open>host-notify\<close> is true; when
  it is false the flag is clear. The host-notify flag is a flag of its own: not zero, and
  sharing no bit with the three other flags.
\<close>

theorem host_notify_flag:
  assumes "of_modalias_node t nd = Some ty"
    and "fst (of_property_read_u32 t nd ''reg'') = 0"
    and "I2C_CLIENT_HOST_NOTIFY c \<noteq> 0"
    and "I2C_CLIENT_TEN c AND I2C_CLIENT_HOST_NOTIFY c = 0"
    and "I2C_CLIENT_SLAVE c AND I2C_CLIENT_HOST_NOTIFY c = 0"
    and "I2C_CLIENT_WAKE c AND I2C_CLIENT_HOST_NOTIFY c = 0"
  shows "\<exists>info. of_i2c_get_board_info c t nd = Inr info
           \<and> (info_flags info AND I2C_CLIENT_HOST_NOTIFY c = I2C_CLIENT_HOST_NOTIFY c
                \<longleftrightarrow> of_property_read_bool t nd ''host-notify'')
           \<and> (\<not> of_property_read_bool t nd ''host-notify''
                \<longrightarrow> info_flags info AND I2C_CLIENT_HOST_NOTIFY c = 0)"
  using assms
  by (cases "of_property_read_u32 t nd ''reg''")
     (auto simp: of_i2c_get_board_info_def Let_def word_or_and_absorb word_or_and_disj)

theorem host_notify_flag_witness:
  "(\<exists>info. of_i2c_get_board_info linux_consts (demo_tree 0xC0000050 True) 3 = Inr info
       \<and> info_flags info AND 0x40 = 0x40)
   \<and> (\<exists>info. of_i2c_get_board_info linux_consts (demo_tree 0xC0000050 False) 3 = Inr info
       \<and> info_flags info AND 0x40 = 0)"
proof -
  have on: "\<exists>info. of_i2c_get_board_info linux_consts (demo_tree 0xC0000050 True) 3 = Inr info
       \<and> info_flags info AND 0x40 = 0x40"
    using host_notify_flag [of "demo_tree 0xC0000050 True" 3 "''eeprom''" linux_consts]
    by (simp add: demo_tree_def linux_consts_def)
  have off: "\<exists>info. of_i2c_get_board_info linux_consts (demo_tree 0xC0000050 False) 3 = Inr info
       \<and> info_flags info AND 0x40 = 0"
    using host_notify_flag [of "demo_tree 0xC0000050 False" 3 "''eeprom''" linux_consts]
    by (auto simp: demo_tree_def linux_consts_def)
  from on off show ?thesis by (rule conjI)
qed

section \<open>The fallback matcher\<close>

lemma live_entries_simps [simp]:
  "live_entries [] = []"
  "live_entries (m # ms) = (if compatible m = [] then [] else m # live_entries ms)"
  by (simp_all add: live_entries_def)

lemma sysfs_match_index:
  "fst (i2c_of_match_device_sysfs streq ms nm) = Some i \<longleftrightarrow>
     i < length (live_entries ms) \<and> sysfs_hit streq nm (ms ! i)
       \<and> (\<forall>j<i. \<not> sysfs_hit streq nm (ms ! j))"
proof (induction ms arbitrary: i)
  case Nil
  show ?case by simp
next
  case (Cons m ms)
  show ?case
  proof (cases "compatible m = [] \<or> sysfs_hit streq nm m")
    case True
    then show ?thesis
      by (cases i) (auto simp: sysfs_hit_def)
  next
    case False
    then have rec: "fst (i2c_of_match_device_sysfs streq (m # ms) nm)
        = map_option Suc (fst (i2c_of_match_device_sysfs streq ms nm))"
      by (auto simp: sysfs_hit_def split: prod.splits)
    show ?thesis
    proof (cases i)
      case 0
      with False rec show ?thesis by auto
    next
      case (Suc k)
      have "(\<forall>j<Suc k. \<not> sysfs_hit streq nm ((m # ms) ! j))
              \<longleftrightarrow> (\<forall>j<k. \<not> sysfs_hit streq nm (ms ! j))"
        using False by (auto simp: less_Suc_eq_0_disj)
      with False rec Suc Cons.IH [of k] show ?thesis by auto
    qed
  qed
qed

lemma sysfs_match_trace:
  "snd (i2c_of_match_device_sysfs streq ms nm) =
     concat (map (sysfs_comparisons streq nm)
       (case fst (i2c_of_match_device_sysfs streq ms nm) of
          None \<Rightarrow> live_entries ms
        | Some k \<Rightarrow> take (Suc k) ms))"
proof (induction ms)
  case Nil
  show ?case by simp
next
  case (Cons m ms)
  obtain r cmps where rc: "i2c_of_match_device_sysfs streq ms nm = (r, cmps)"
    by (cases "i2c_of_match_device_sysfs streq ms nm")
  show ?case
  proof (cases "compatible m = [] \<or> sysfs_hit streq nm m")
    case True
    then show ?thesis
      by (auto simp: sysfs_hit_def sysfs_comparisons_def)
  next
    case False
    then have step: "i2c_of_match_device_sysfs streq (m # ms) nm
        = (map_option Suc r, compatible m # sysfs_name (compatible m) # cmps)"
      using rc by (simp add: sysfs_hit_def)
    have cm: "sysfs_comparisons streq nm m = [compatible m, sysfs_name (compatible m)]"
      using False by (simp add: sysfs_hit_def sysfs_comparisons_def)
    show ?thesis
      using Cons.IH False cm unfolding step rc
      by (cases r) simp_all
  qed
qed







text \<open>
  C10: the matcher returns the entry of index \<open>i\<close> exactly when \<open>i\<close> is the first entry
  before the end of the table that satisfies the full-string comparison or the
  stripped one, whichever of the two it is; and the comparisons made are, entry by entry
  in list order up to the returned one, the full string first and the stripped string
  after it only when the full string did not match.
\<close>

theorem first_entry_in_list_order_wins:
  "(fst (i2c_of_match_device_sysfs streq ms nm) = Some i \<longleftrightarrow>
      i < length (live_entries ms) \<and> sysfs_hit streq nm (ms ! i)
        \<and> (\<forall>j<i. \<not> sysfs_hit streq nm (ms ! j)))
   \<and> snd (i2c_of_match_device_sysfs streq ms nm) =
       concat (map (sysfs_comparisons streq nm)
         (case fst (i2c_of_match_device_sysfs streq ms nm) of
            None \<Rightarrow> live_entries ms
          | Some k \<Rightarrow> take (Suc k) ms))"
  using sysfs_match_index sysfs_match_trace by blast

theorem first_entry_in_list_order_wins_witness:
  "fst (i2c_of_match_device_sysfs sysfs_streq demo_table ''foo-dev'') = Some 1
   \<and> snd (i2c_of_match_device_sysfs sysfs_streq demo_table ''foo-dev'')
       = [''acme,bar'', ''bar'', ''vend,foo-dev'', ''foo-dev'']"
proof -
  have h: "(1::nat) < length (live_entries demo_table)
        \<and> sysfs_hit sysfs_streq ''foo-dev'' (demo_table ! 1)
        \<and> (\<forall>j<1. \<not> sysfs_hit sysfs_streq ''foo-dev'' (demo_table ! j))"
    by (simp add: demo_table_def sysfs_hit_def sysfs_name_def strchr_def)
  have r: "fst (i2c_of_match_device_sysfs sysfs_streq demo_table ''foo-dev'') = Some 1"
    using first_entry_in_list_order_wins [of sysfs_streq demo_table "''foo-dev''" 1] h by blast
  have "snd (i2c_of_match_device_sysfs sysfs_streq demo_table ''foo-dev'')
       = concat (map (sysfs_comparisons sysfs_streq ''foo-dev'') (take (Suc 1) demo_table))"
    using first_entry_in_list_order_wins [of sysfs_streq demo_table "''foo-dev''" 1] r by simp
  then show ?thesis using r
    by (simp add: demo_table_def sysfs_comparisons_def sysfs_name_def strchr_def)
qed

section \<open>Claiming, registering and the event handler\<close>

lemma log_call_simps [simp]:
  "of_populated (log_call k s) = of_populated s"
  "bus_devices (log_call k s) = bus_devices s"
  "refcount (log_call k s) = refcount s"
  "calls (log_call k s) = calls s @ [k]"
  by (simp_all add: log_call_def)

lemma get_device_simps [simp]:
  "of_populated (get_device d s) = of_populated s"
  "bus_devices (get_device d s) = bus_devices s"
  "calls (get_device d s) = calls s"
  by (simp_all add: get_device_def)

lemma put_device_simps [simp]:
  "of_populated (put_device d s) = of_populated s"
  "bus_devices (put_device d s) = bus_devices s"
  "calls (put_device d s) = calls s"
  by (simp_all add: put_device_def)

lemma put_get_device [simp]: "put_device d (get_device d s) = s"
  by (simp add: put_device_def get_device_def)

lemma test_and_set_claimed:
  "nd \<in> of_populated s \<Longrightarrow> of_node_test_and_set_flag nd s = (True, s)"
  by (simp add: of_node_test_and_set_flag_def insert_absorb)

lemma find_adapter_cases:
  "of_find_i2c_adapter_by_node nd s = (None, log_call (BUS_FIND_DEVICE nd) s)
   \<or> (\<exists>adap. of_find_i2c_adapter_by_node nd s
         = (Some adap, get_device adap (log_call (BUS_FIND_DEVICE nd) s))
       \<and> find (\<lambda>d. of_dev_or_parent_node_match d nd) (bus_devices s) = Some adap
       \<and> adap \<in> set (bus_devices s)
       \<and> i2c_verify_adapter adap = Some adap
       \<and> dev_kind adap = I2C_ADAPTER)"
proof (cases "find (\<lambda>d. of_dev_or_parent_node_match d nd) (bus_devices s)")
  case None
  then show ?thesis
    by (simp add: of_find_i2c_adapter_by_node_def bus_find_device_def)
next
  case (Some dev)
  then have mem: "dev \<in> set (bus_devices s)"
    by (auto simp: find_Some_iff)
  show ?thesis
  proof (cases "dev_kind dev = I2C_ADAPTER")
    case True
    with Some mem show ?thesis
      by (simp add: of_find_i2c_adapter_by_node_def bus_find_device_def i2c_verify_adapter_def)
  next
    case False
    then have "i2c_verify_adapter dev = None"
      by (cases "dev_kind dev") (simp_all add: i2c_verify_adapter_def)
    with Some show ?thesis
      by (simp add: of_find_i2c_adapter_by_node_def bus_find_device_def)
  qed
qed

lemma find_device_cases:
  "of_find_i2c_device_by_node nd s = (None, log_call (BUS_FIND_DEVICE nd) s)
   \<or> (\<exists>client. of_find_i2c_device_by_node nd s
         = (Some client, get_device client (log_call (BUS_FIND_DEVICE nd) s))
       \<and> find (\<lambda>d. of_dev_node_match d nd) (bus_devices s) = Some client
       \<and> client \<in> set (bus_devices s)
       \<and> dev_of_node client = nd
       \<and> i2c_verify_client client = Some client
       \<and> is_client client)"
proof (cases "find (\<lambda>d. of_dev_node_match d nd) (bus_devices s)")
  case None
  then show ?thesis
    by (simp add: of_find_i2c_device_by_node_def bus_find_device_def)
next
  case (Some dev)
  then have mem: "dev \<in> set (bus_devices s)" and nd: "dev_of_node dev = nd"
    by (auto simp: find_Some_iff of_dev_node_match_def)
  show ?thesis
  proof (cases "is_client dev")
    case True
    then have "i2c_verify_client dev = Some dev"
      by (cases "dev_kind dev") (simp_all add: i2c_verify_client_def is_client_def)
    with Some mem nd True show ?thesis
      by (simp add: of_find_i2c_device_by_node_def bus_find_device_def)
  next
    case False
    then have "i2c_verify_client dev = None"
      by (cases "dev_kind dev") (simp_all add: i2c_verify_client_def is_client_def)
    with Some show ?thesis
      by (simp add: of_find_i2c_device_by_node_def bus_find_device_def)
  qed
qed

text \<open>
  C8: for every remove event on a node whose Claim Flag is unset, the handler returns
  \<^verbatim>\<open>NOTIFY_OK\<close> at once and the state is the one it started from: no registry lookup
  and no unregistration call is added to the trace, and flags, bus and reference counts
  are unchanged.
\<close>

theorem remove_of_unclaimed_node_is_noop:
  assumes "dn \<notin> of_populated s"
  shows "of_i2c_notify c t reg OF_RECONFIG_CHANGE_REMOVE dn s = (NOTIFY_OK, s)"
  using assms by (simp add: of_i2c_notify_def of_node_check_flag_def)

theorem remove_of_unclaimed_node_is_noop_witness:
  "of_i2c_notify linux_consts (demo_tree 0x50 False) accept_all OF_RECONFIG_CHANGE_REMOVE 3
     demo_state = (NOTIFY_OK, demo_state)"
proof -
  have "3 \<notin> of_populated demo_state" by (simp add: demo_state_def)
  then show ?thesis by (rule remove_of_unclaimed_node_is_noop)
qed

subsection \<open>One claim-and-register attempt\<close>

lemma register_device_accepted:
  assumes "of_i2c_get_board_info c t nd = Inr info"
    and "reg (bus_devices s) adap info = Some p"
  shows "of_i2c_register_device c t reg adap nd s =
           (Inr (Device p (Some nd) (Some adap) (I2C_CLIENT info)),
            s\<lparr>bus_devices := bus_devices s @ [Device p (Some nd) (Some adap) (I2C_CLIENT info)],
              refcount := (refcount s)(p := 1),
              calls := calls s @ [GET_BOARD_INFO nd, I2C_NEW_DEVICE (dev_id adap) info]\<rparr>)"
proof -
  have "info_of_node info = nd"
    using assms(1)
    by (auto simp: of_i2c_get_board_info_def Let_def split: option.splits prod.splits if_splits)
  then show ?thesis
    using assms
    by (simp add: of_i2c_register_device_def i2c_new_device_def log_call_def Let_def)
qed

lemma register_child_accepted:
  assumes "nd \<notin> of_populated s"
    and "of_i2c_get_board_info c t nd = Inr info"
    and "reg (bus_devices s) adap info = Some p"
  shows "register_child c t reg adap nd s =
           s\<lparr>of_populated := insert nd (of_populated s),
             bus_devices := bus_devices s @ [Device p (Some nd) (Some adap) (I2C_CLIENT info)],
             refcount := (refcount s)(p := 1),
             calls := calls s @ [GET_BOARD_INFO nd, I2C_NEW_DEVICE (dev_id adap) info]\<rparr>"
proof -
  let ?s1 = "s\<lparr>of_populated := insert nd (of_populated s)\<rparr>"
  have "reg (bus_devices ?s1) adap info = Some p" using assms(3) by simp
  with register_device_accepted [of c t nd info reg ?s1 adap p] assms(1,2) show ?thesis
    by (simp add: register_child_def of_node_test_and_set_flag_def IS_ERR_def)
qed


lemma notify_add_claimed:
  assumes "dn \<in> of_populated s"
  shows "of_i2c_notify c t reg OF_RECONFIG_CHANGE_ADD dn s
           = (NOTIFY_OK, log_call (BUS_FIND_DEVICE (node_parent t dn)) s)"
proof -
  let ?s0 = "log_call (BUS_FIND_DEVICE (node_parent t dn)) s"
  have cl: "dn \<in> of_populated ?s0" using assms by simp
  from find_adapter_cases [of "node_parent t dn" s] show ?thesis
  proof
    assume "of_find_i2c_adapter_by_node (node_parent t dn) s = (None, ?s0)"
    then show ?thesis by (simp add: of_i2c_notify_def)
  next
    assume "\<exists>adap. of_find_i2c_adapter_by_node (node_parent t dn) s
                = (Some adap, get_device adap ?s0)
       \<and> find (\<lambda>d. of_dev_or_parent_node_match d (node_parent t dn)) (bus_devices s) = Some adap
       \<and> adap \<in> set (bus_devices s)
       \<and> i2c_verify_adapter adap = Some adap
       \<and> dev_kind adap = I2C_ADAPTER"
    then obtain adap where
      f: "of_find_i2c_adapter_by_node (node_parent t dn) s = (Some adap, get_device adap ?s0)"
      by blast
    have "of_node_test_and_set_flag dn (get_device adap ?s0) = (True, get_device adap ?s0)"
      using cl by (simp add: test_and_set_claimed)
    then show ?thesis
      using f by (simp add: of_i2c_notify_def)
  qed
qed

lemma register_child_claimed:
  "nd \<in> of_populated s \<Longrightarrow> register_child c t reg adap nd s = s"
  by (simp add: register_child_def test_and_set_claimed)

lemma register_device_failed:
  assumes "registration_fails c t reg adap nd s"
  shows "\<exists>err ks. of_i2c_register_device c t reg adap nd s = (Inl err, s\<lparr>calls := calls s @ ks\<rparr>)
           \<and> IS_ERR (Inl err) \<and> ks \<noteq> [] \<and> (\<forall>k\<in>set ks. call_node k = Some nd)"
proof (cases "of_i2c_get_board_info c t nd")
  case (Inl ret)
  then have "of_i2c_register_device c t reg adap nd s
      = (Inl ret, s\<lparr>calls := calls s @ [GET_BOARD_INFO nd]\<rparr>)"
    by (simp add: of_i2c_register_device_def log_call_def)
  moreover have "\<forall>k\<in>set [GET_BOARD_INFO nd]. call_node k = Some nd"
    by (simp add: call_node_def)
  moreover have "IS_ERR (Inl ret)"
    using Inl assms by (simp add: registration_fails_def IS_ERR_def)
  ultimately show ?thesis by blast
next
  case (Inr info)
  then have nd: "info_of_node info = nd"
    by (auto simp: of_i2c_get_board_info_def Let_def split: option.splits prod.splits if_splits)
  from Inr assms have "reg (bus_devices s) adap info = None"
    by (simp add: registration_fails_def)
  with Inr have "of_i2c_register_device c t reg adap nd s
      = (Inl (- EINVAL),
         s\<lparr>calls := calls s @ [GET_BOARD_INFO nd, I2C_NEW_DEVICE (dev_id adap) info]\<rparr>)"
    by (simp add: of_i2c_register_device_def i2c_new_device_def log_call_def)
  moreover have "\<forall>k\<in>set [GET_BOARD_INFO nd, I2C_NEW_DEVICE (dev_id adap) info]. call_node k = Some nd"
    using nd by (simp add: call_node_def)
  moreover have "IS_ERR (Inl (- EINVAL))"
    by (simp add: IS_ERR_def EINVAL_def MAX_ERRNO_def)
  ultimately show ?thesis by blast
qed

lemma register_device_stray:
  assumes "\<not> build_returns_errno c t nd"
  shows "\<exists>ret. of_i2c_register_device c t reg adap nd s
                 = (Inl ret, s\<lparr>calls := calls s @ [GET_BOARD_INFO nd]\<rparr>)
           \<and> \<not> IS_ERR (Inl ret)"
proof (cases "of_i2c_get_board_info c t nd")
  case (Inl ret)
  then have "of_i2c_register_device c t reg adap nd s
      = (Inl ret, s\<lparr>calls := calls s @ [GET_BOARD_INFO nd]\<rparr>)"
    by (simp add: of_i2c_register_device_def log_call_def)
  moreover have "\<not> IS_ERR (Inl ret)"
    using Inl assms by (simp add: build_returns_errno_def IS_ERR_def)
  ultimately show ?thesis by blast
next
  case (Inr info)
  with assms show ?thesis by (simp add: build_returns_errno_def)
qed

lemma register_device_cases:
  "registration_fails c t reg adap nd s
   \<or> (\<exists>info p. of_i2c_get_board_info c t nd = Inr info \<and> reg (bus_devices s) adap info = Some p)
   \<or> \<not> build_returns_errno c t nd"
  by (cases "of_i2c_get_board_info c t nd")
     (auto simp: registration_fails_def build_returns_errno_def)

lemma register_child_failed:
  assumes "nd \<notin> of_populated s" and "registration_fails c t reg adap nd s"
  shows "\<exists>ks. register_child c t reg adap nd s = s\<lparr>calls := calls s @ ks\<rparr>
           \<and> (\<forall>k\<in>set ks. call_node k = Some nd)"
proof -
  let ?s1 = "s\<lparr>of_populated := insert nd (of_populated s)\<rparr>"
  have "registration_fails c t reg adap nd ?s1"
    using assms(2) by (auto simp: registration_fails_def split: sum.splits)
  from register_device_failed [OF this] obtain err ks where
    rd: "of_i2c_register_device c t reg adap nd ?s1 = (Inl err, ?s1\<lparr>calls := calls ?s1 @ ks\<rparr>)"
    and ie: "IS_ERR (Inl err)"
    and ks: "\<forall>k\<in>set ks. call_node k = Some nd"
    by blast
  have "register_child c t reg adap nd s = s\<lparr>calls := calls s @ ks\<rparr>"
    using assms(1) rd ie
    by (simp add: register_child_def of_node_test_and_set_flag_def of_node_clear_flag_def)
  with ks show ?thesis by blast
qed

lemma register_child_stray:
  assumes "nd \<notin> of_populated s" and "\<not> build_returns_errno c t nd"
  shows "register_child c t reg adap nd s
           = s\<lparr>of_populated := insert nd (of_populated s),
               calls := calls s @ [GET_BOARD_INFO nd]\<rparr>"
proof -
  let ?s1 = "s\<lparr>of_populated := insert nd (of_populated s)\<rparr>"
  from register_device_stray [OF assms(2), of reg adap ?s1] obtain ret where
    rd: "of_i2c_register_device c t reg adap nd ?s1
           = (Inl ret, ?s1\<lparr>calls := calls ?s1 @ [GET_BOARD_INFO nd]\<rparr>)"
    and ie: "\<not> IS_ERR (Inl ret)"
    by blast
  show ?thesis
    using assms(1) rd ie
    by (simp add: register_child_def of_node_test_and_set_flag_def)
qed

lemma register_child_cases:
  "(\<exists>ks. calls (register_child c t reg adap nd s) = calls s @ ks
        \<and> (nd \<in> of_populated s \<longrightarrow> ks = [])
        \<and> (\<forall>k\<in>set ks. call_node k = Some nd))
   \<and> ((of_populated (register_child c t reg adap nd s) = of_populated s
          \<and> bus_devices (register_child c t reg adap nd s) = bus_devices s)
       \<or> (nd \<notin> of_populated s
          \<and> of_populated (register_child c t reg adap nd s) = insert nd (of_populated s)
          \<and> (\<exists>p info. bus_devices (register_child c t reg adap nd s)
                = bus_devices s @ [Device p (Some nd) (Some adap) (I2C_CLIENT info)]))
       \<or> (nd \<notin> of_populated s \<and> \<not> build_returns_errno c t nd
          \<and> of_populated (register_child c t reg adap nd s) = insert nd (of_populated s)
          \<and> bus_devices (register_child c t reg adap nd s) = bus_devices s))"
proof (cases "nd \<in> of_populated s")
  case True
  then show ?thesis by (simp add: register_child_claimed)
next
  case False
  from register_device_cases [of c t reg adap nd s]
  consider (fails) "registration_fails c t reg adap nd s"
    | (accepted) "\<exists>info p. of_i2c_get_board_info c t nd = Inr info
                    \<and> reg (bus_devices s) adap info = Some p"
    | (stray) "\<not> build_returns_errno c t nd"
    by blast
  then show ?thesis
  proof cases
    case fails
    from register_child_failed [OF False this] obtain ks where
      "register_child c t reg adap nd s = s\<lparr>calls := calls s @ ks\<rparr>"
      "\<forall>k\<in>set ks. call_node k = Some nd"
      by blast
    with False show ?thesis by simp
  next
    case accepted
    then obtain info p where
      i: "of_i2c_get_board_info c t nd = Inr info" and r: "reg (bus_devices s) adap info = Some p"
      by blast
    have nd: "info_of_node info = nd"
      using i
      by (auto simp: of_i2c_get_board_info_def Let_def split: option.splits prod.splits if_splits)
    from register_child_accepted [of nd s c t info reg adap p] False i r
    have "register_child c t reg adap nd s =
           s\<lparr>of_populated := insert nd (of_populated s),
             bus_devices := bus_devices s @ [Device p (Some nd) (Some adap) (I2C_CLIENT info)],
             refcount := (refcount s)(p := 1),
             calls := calls s @ [GET_BOARD_INFO nd, I2C_NEW_DEVICE (dev_id adap) info]\<rparr>"
      by simp
    with False nd show ?thesis by (simp add: call_node_def)
  next
    case stray
    from register_child_stray [OF False stray, of reg adap] False stray
    show ?thesis by (simp add: call_node_def)
  qed
qed


lemma clients_of_same_bus:
  "bus_devices s' = bus_devices s \<Longrightarrow> clients_of s' nd = clients_of s nd"
  by (simp add: clients_of_def)

lemma clients_of_new_client:
  "bus_devices s' = bus_devices s @ [Device p (Some nd) (Some adap) (I2C_CLIENT info)]
     \<Longrightarrow> clients_of s' m
           = clients_of s m @ (if m = nd then [Device p (Some nd) (Some adap) (I2C_CLIENT info)] else [])"
  by (simp add: clients_of_def is_client_def)

lemma register_child_clients:
  "(of_populated (register_child c t reg adap nd s) = of_populated s
      \<and> clients_of (register_child c t reg adap nd s) m = clients_of s m)
   \<or> (nd \<notin> of_populated s
       \<and> of_populated (register_child c t reg adap nd s) = insert nd (of_populated s)
       \<and> (if m = nd
           then \<exists>d. clients_of (register_child c t reg adap nd s) m = clients_of s m @ [d]
           else clients_of (register_child c t reg adap nd s) m = clients_of s m))
   \<or> (nd \<notin> of_populated s \<and> \<not> build_returns_errno c t nd
       \<and> of_populated (register_child c t reg adap nd s) = insert nd (of_populated s)
       \<and> clients_of (register_child c t reg adap nd s) m = clients_of s m)"
proof -
  let ?s' = "register_child c t reg adap nd s"
  from register_child_cases [of c t reg adap nd s]
  consider (same) "of_populated ?s' = of_populated s \<and> bus_devices ?s' = bus_devices s"
    | (new) "nd \<notin> of_populated s \<and> of_populated ?s' = insert nd (of_populated s)
          \<and> (\<exists>p info. bus_devices ?s'
                = bus_devices s @ [Device p (Some nd) (Some adap) (I2C_CLIENT info)])"
    | (stray) "nd \<notin> of_populated s \<and> \<not> build_returns_errno c t nd
          \<and> of_populated ?s' = insert nd (of_populated s)
          \<and> bus_devices ?s' = bus_devices s"
    by blast
  then show ?thesis
  proof cases
    case same
    then have "clients_of ?s' m = clients_of s m"
      using clients_of_same_bus [of ?s' s m] by simp
    with same show ?thesis by simp
  next
    case new
    then obtain p info where
      b: "bus_devices ?s' = bus_devices s @ [Device p (Some nd) (Some adap) (I2C_CLIENT info)]"
      by blast
    from clients_of_new_client [OF b, of m] new show ?thesis
      by (cases "m = nd") simp_all
  next
    case stray
    then have "clients_of ?s' m = clients_of s m"
      using clients_of_same_bus [of ?s' s m] by simp
    with stray show ?thesis by simp
  qed
qed

lemma register_child_populated:
  "of_populated (register_child c t reg adap nd s) = of_populated s
   \<or> (nd \<notin> of_populated s
       \<and> of_populated (register_child c t reg adap nd s) = insert nd (of_populated s))"
  using register_child_cases [of c t reg adap nd s] by blast

subsection \<open>The walk over the children\<close>

lemma register_child_other_node:
  assumes "m \<in> of_populated s"
  shows "m \<in> of_populated (register_child c t reg adap nd s)
         \<and> (\<exists>ks. calls (register_child c t reg adap nd s) = calls s @ ks
                \<and> Some m \<notin> call_node ` set ks)
         \<and> clients_of (register_child c t reg adap nd s) m = clients_of s m"
proof (cases "nd = m")
  case True
  with assms show ?thesis by (simp add: register_child_claimed)
next
  case False
  from register_child_cases [of c t reg adap nd s] obtain ks where
    ks: "calls (register_child c t reg adap nd s) = calls s @ ks"
        "\<forall>k\<in>set ks. call_node k = Some nd"
    by blast
  from ks(2) False have "Some m \<notin> call_node ` set ks" by auto
  with ks(1) have c: "\<exists>ks. calls (register_child c t reg adap nd s) = calls s @ ks
                \<and> Some m \<notin> call_node ` set ks"
    by blast
  from register_child_populated [of c t reg adap nd s] assms
  have p: "m \<in> of_populated (register_child c t reg adap nd s)" by auto
  from register_child_clients [of c t reg adap nd s m] False
  have "clients_of (register_child c t reg adap nd s) m = clients_of s m"
    by (auto split: if_splits)
  with c p show ?thesis by blast
qed

lemma register_children_other_node:
  "m \<in> of_populated s \<Longrightarrow>
     m \<in> of_populated (register_children c t reg adap nds s)
     \<and> (\<exists>ks. calls (register_children c t reg adap nds s) = calls s @ ks
            \<and> Some m \<notin> call_node ` set ks)
     \<and> clients_of (register_children c t reg adap nds s) m = clients_of s m"
proof (induction nds arbitrary: s)
  case Nil
  then show ?case by simp
next
  case (Cons nd nds)
  let ?s1 = "register_child c t reg adap nd s"
  let ?s2 = "register_children c t reg adap nds ?s1"
  from register_child_other_node [OF Cons.prems, of c t reg adap nd] obtain ks1 where
    a: "m \<in> of_populated ?s1" "calls ?s1 = calls s @ ks1" "Some m \<notin> call_node ` set ks1"
       "clients_of ?s1 m = clients_of s m"
    by blast
  from Cons.IH [OF a(1)] obtain ks2 where
    b: "m \<in> of_populated ?s2" "calls ?s2 = calls ?s1 @ ks2" "Some m \<notin> call_node ` set ks2"
       "clients_of ?s2 m = clients_of ?s1 m"
    by blast
  have "calls ?s2 = calls s @ (ks1 @ ks2) \<and> Some m \<notin> call_node ` set (ks1 @ ks2)"
    using a b by auto
  then have "\<exists>ks. calls ?s2 = calls s @ ks \<and> Some m \<notin> call_node ` set ks"
    by blast
  with a b show ?case by simp
qed

lemma register_child_clients_persist:
  "clients_of s m \<noteq> [] \<Longrightarrow> clients_of (register_child c t reg adap nd s) m \<noteq> []"
  using register_child_clients [of c t reg adap nd s m] by (auto split: if_splits)

lemma register_children_clients_persist:
  "clients_of s m \<noteq> [] \<Longrightarrow> clients_of (register_children c t reg adap nds s) m \<noteq> []"
  by (induction nds arbitrary: s) (simp_all add: register_child_clients_persist)

lemma register_child_new_claim_backed:
  "build_returns_errno c t nd \<Longrightarrow> m \<notin> of_populated s
     \<Longrightarrow> m \<in> of_populated (register_child c t reg adap nd s)
     \<Longrightarrow> clients_of (register_child c t reg adap nd s) m \<noteq> []"
  using register_child_clients [of c t reg adap nd s m]
  by (auto split: if_splits)

lemma register_children_new_claim_backed:
  "\<forall>nd\<in>set nds. build_returns_errno c t nd \<Longrightarrow> m \<notin> of_populated s
     \<Longrightarrow> m \<in> of_populated (register_children c t reg adap nds s)
     \<Longrightarrow> clients_of (register_children c t reg adap nds s) m \<noteq> []"
proof (induction nds arbitrary: s)
  case Nil
  then show ?case by simp
next
  case (Cons nd nds)
  from Cons.prems(1) have e: "build_returns_errno c t nd"
    and es: "\<forall>nd\<in>set nds. build_returns_errno c t nd"
    by simp_all
  show ?case
  proof (cases "m \<in> of_populated (register_child c t reg adap nd s)")
    case True
    with e Cons.prems(2) have "clients_of (register_child c t reg adap nd s) m \<noteq> []"
      by (rule register_child_new_claim_backed)
    then show ?thesis by (simp add: register_children_clients_persist)
  next
    case False
    with Cons.IH [OF es False] Cons.prems(3) show ?thesis by simp
  qed
qed

subsection \<open>At most one client per node\<close>

lemma one_device_per_node_iff:
  "one_device_per_node s \<longleftrightarrow>
     (\<forall>nd. length (clients_of s nd) \<le> 1 \<and> (clients_of s nd \<noteq> [] \<longrightarrow> nd \<in> of_populated s))"
proof
  assume inv: "one_device_per_node s"
  show "\<forall>nd. length (clients_of s nd) \<le> 1 \<and> (clients_of s nd \<noteq> [] \<longrightarrow> nd \<in> of_populated s)"
  proof
    fix nd
    show "length (clients_of s nd) \<le> 1 \<and> (clients_of s nd \<noteq> [] \<longrightarrow> nd \<in> of_populated s)"
    proof (cases "clients_of s nd")
      case Nil
      then show ?thesis by simp
    next
      case (Cons d ds)
      then have "d \<in> set (clients_of s nd)" by simp
      then have d: "d \<in> set (bus_devices s)" "is_client d" "dev_of_node d = Some nd"
        by (simp_all add: clients_of_def)
      with inv have "nd \<in> of_populated s \<and> length (clients_of s nd) = 1"
        by (auto simp: one_device_per_node_def)
      then show ?thesis by simp
    qed
  qed
next
  assume alt: "\<forall>nd. length (clients_of s nd) \<le> 1 \<and> (clients_of s nd \<noteq> [] \<longrightarrow> nd \<in> of_populated s)"
  show "one_device_per_node s"
    unfolding one_device_per_node_def
  proof (intro ballI impI)
    fix d assume d: "d \<in> set (bus_devices s)" "is_client d"
    show "case dev_of_node d of None \<Rightarrow> True
          | Some nd \<Rightarrow> nd \<in> of_populated s \<and> length (clients_of s nd) = 1"
    proof (cases "dev_of_node d")
      case None
      then show ?thesis by simp
    next
      case (Some nd)
      with d have "d \<in> set (clients_of s nd)" by (simp add: clients_of_def)
      then have ne: "clients_of s nd \<noteq> []" by auto
      then have "0 < length (clients_of s nd)" by simp
      with alt ne have "nd \<in> of_populated s \<and> length (clients_of s nd) = 1"
        by (metis One_nat_def Suc_leI le_antisym)
      with Some show ?thesis by simp
    qed
  qed
qed

lemma register_child_inv:
  assumes "one_device_per_node s"
  shows "one_device_per_node (register_child c t reg adap nd s)"
proof -
  let ?s' = "register_child c t reg adap nd s"
  from assms have inv: "\<And>m. length (clients_of s m) \<le> 1"
      "\<And>m. clients_of s m \<noteq> [] \<Longrightarrow> m \<in> of_populated s"
    by (simp_all add: one_device_per_node_iff)
  have "length (clients_of ?s' m) \<le> 1 \<and> (clients_of ?s' m \<noteq> [] \<longrightarrow> m \<in> of_populated ?s')" for m
  proof -
    from register_child_clients [of c t reg adap nd s m]
    consider (same) "of_populated ?s' = of_populated s \<and> clients_of ?s' m = clients_of s m"
      | (new) "nd \<notin> of_populated s \<and> of_populated ?s' = insert nd (of_populated s)
         \<and> (if m = nd then \<exists>d. clients_of ?s' m = clients_of s m @ [d]
             else clients_of ?s' m = clients_of s m)"
      | (stray) "nd \<notin> of_populated s \<and> \<not> build_returns_errno c t nd
         \<and> of_populated ?s' = insert nd (of_populated s)
         \<and> clients_of ?s' m = clients_of s m"
      by blast
    then show ?thesis
    proof cases
      case same
      with inv [of m] show ?thesis by simp
    next
      case new
      show ?thesis
      proof (cases "m = nd")
        case True
        with new inv(2) [of nd] have "clients_of s m = []" by auto
        with new True show ?thesis by auto
      next
        case False
        with new inv [of m] show ?thesis by auto
      qed
    next
      case stray
      with inv [of m] show ?thesis by auto
    qed
  qed
  then show ?thesis by (simp add: one_device_per_node_iff)
qed

lemma register_children_inv:
  "one_device_per_node s \<Longrightarrow> one_device_per_node (register_children c t reg adap nds s)"
  by (induction nds arbitrary: s) (simp_all add: register_child_inv)

lemma register_devices_inv:
  "one_device_per_node s \<Longrightarrow> one_device_per_node (of_i2c_register_devices c t reg adap s)"
  by (simp add: of_i2c_register_devices_def Let_def register_children_inv split: option.splits)

lemma one_device_per_node_cong:
  "of_populated s' = of_populated s \<Longrightarrow> bus_devices s' = bus_devices s
     \<Longrightarrow> one_device_per_node s' = one_device_per_node s"
  by (simp add: one_device_per_node_iff clients_of_def)


lemma register_device_bus_only:
  assumes "bus_devices s2 = bus_devices s1"
  shows "fst (of_i2c_register_device c t reg adap nd s2) = fst (of_i2c_register_device c t reg adap nd s1)"
    and "bus_devices (snd (of_i2c_register_device c t reg adap nd s2))
           = bus_devices (snd (of_i2c_register_device c t reg adap nd s1))"
    and "of_populated (snd (of_i2c_register_device c t reg adap nd s2)) = of_populated s2"
  using assms
  by (auto simp: of_i2c_register_device_def i2c_new_device_def Let_def
           split: sum.splits option.splits)

lemma notify_add_like_register_child:
  assumes "fst (of_find_i2c_adapter_by_node (node_parent t dn) s) = Some adap"
  shows "of_populated (snd (of_i2c_notify c t reg OF_RECONFIG_CHANGE_ADD dn s))
           = of_populated (register_child c t reg adap dn s)"
    and "bus_devices (snd (of_i2c_notify c t reg OF_RECONFIG_CHANGE_ADD dn s))
           = bus_devices (register_child c t reg adap dn s)"
proof -
  let ?s0 = "log_call (BUS_FIND_DEVICE (node_parent t dn)) s"
  let ?s1 = "get_device adap ?s0"
  let ?s2 = "?s1\<lparr>of_populated := insert dn (of_populated s)\<rparr>"
  let ?r1 = "s\<lparr>of_populated := insert dn (of_populated s)\<rparr>"
  have f: "of_find_i2c_adapter_by_node (node_parent t dn) s = (Some adap, ?s1)"
    using find_adapter_cases [of "node_parent t dn" s] assms by auto
  have both: "of_populated (snd (of_i2c_notify c t reg OF_RECONFIG_CHANGE_ADD dn s))
           = of_populated (register_child c t reg adap dn s)
       \<and> bus_devices (snd (of_i2c_notify c t reg OF_RECONFIG_CHANGE_ADD dn s))
           = bus_devices (register_child c t reg adap dn s)"
  proof (cases "dn \<in> of_populated s")
    case True
    then show ?thesis
      by (simp add: notify_add_claimed register_child_claimed)
  next
    case False
    have b: "bus_devices ?s2 = bus_devices ?r1" by simp
    obtain r2 s3 where rd2: "of_i2c_register_device c t reg adap dn ?s2 = (r2, s3)"
      by (cases "of_i2c_register_device c t reg adap dn ?s2")
    obtain r1 q3 where rd1: "of_i2c_register_device c t reg adap dn ?r1 = (r1, q3)"
      by (cases "of_i2c_register_device c t reg adap dn ?r1")
    from register_device_bus_only [OF b, of c t reg adap dn] rd1 rd2
    have e: "r2 = r1" "bus_devices s3 = bus_devices q3"
      "of_populated s3 = insert dn (of_populated s)"
      by simp_all
    from register_device_bus_only(3) [of ?r1 ?r1 c t reg adap dn] rd1
    have e1: "of_populated q3 = insert dn (of_populated s)" by simp
    have n: "of_i2c_notify c t reg OF_RECONFIG_CHANGE_ADD dn s
        = (if IS_ERR r2
           then (NOTIFIER_FROM_ERRNO (PTR_ERR r2), of_node_clear_flag dn (put_device adap s3))
           else (NOTIFY_OK, put_device adap s3))"
      using False f rd2 by (simp add: of_i2c_notify_def of_node_test_and_set_flag_def)
    have r: "register_child c t reg adap dn s
        = (if IS_ERR r1 then of_node_clear_flag dn q3 else q3)"
      using False rd1 by (simp add: register_child_def of_node_test_and_set_flag_def)
    show ?thesis
      unfolding n r using e e1
      by (cases "IS_ERR r1") (simp_all add: of_node_clear_flag_def)
  qed
  from both show "of_populated (snd (of_i2c_notify c t reg OF_RECONFIG_CHANGE_ADD dn s))
           = of_populated (register_child c t reg adap dn s)" by simp
  from both show "bus_devices (snd (of_i2c_notify c t reg OF_RECONFIG_CHANGE_ADD dn s))
           = bus_devices (register_child c t reg adap dn s)" by simp
qed

lemma notify_add_no_adapter:
  assumes "fst (of_find_i2c_adapter_by_node (node_parent t dn) s) = None"
  shows "of_i2c_notify c t reg OF_RECONFIG_CHANGE_ADD dn s
           = (NOTIFY_OK, log_call (BUS_FIND_DEVICE (node_parent t dn)) s)"
  using find_adapter_cases [of "node_parent t dn" s] assms
  by (auto simp: of_i2c_notify_def)

lemma notify_add_inv:
  assumes "one_device_per_node s"
  shows "one_device_per_node (snd (of_i2c_notify c t reg OF_RECONFIG_CHANGE_ADD dn s))"
proof (cases "fst (of_find_i2c_adapter_by_node (node_parent t dn) s)")
  case None
  from notify_add_no_adapter [OF None] assms show ?thesis
    using one_device_per_node_cong [of "log_call (BUS_FIND_DEVICE (node_parent t dn)) s" s]
    by simp
next
  case (Some adap)
  from notify_add_like_register_child [OF Some, of c reg]
    one_device_per_node_cong [of "snd (of_i2c_notify c t reg OF_RECONFIG_CHANGE_ADD dn s)"
      "register_child c t reg adap dn s"]
    register_child_inv [OF assms, of c t reg adap dn]
  show ?thesis by simp
qed

subsection \<open>Unregistering, and the whole operations\<close>

lemma unregister_inv:
  assumes "one_device_per_node s" and "client \<in> set (bus_devices s)" and "is_client client"
    and "dev_of_node client = Some dn"
    and "of_populated s' = of_populated s - {dn}"
    and "bus_devices s' = remove1 client (bus_devices s)"
  shows "one_device_per_node s'"
proof -
  from assms(1) have inv: "\<And>m. length (clients_of s m) \<le> 1"
      "\<And>m. clients_of s m \<noteq> [] \<Longrightarrow> m \<in> of_populated s"
    by (simp_all add: one_device_per_node_iff)
  have rm: "clients_of s' m = remove1 client (clients_of s m)" for m
    using assms(6) by (simp add: clients_of_def filter_remove1)
  have mem: "client \<in> set (clients_of s dn)"
    using assms(2,3,4) by (simp add: clients_of_def)
  have "length (clients_of s' m) \<le> 1 \<and> (clients_of s' m \<noteq> [] \<longrightarrow> m \<in> of_populated s')" for m
  proof (cases "m = dn")
    case True
    from mem inv(1) [of dn] have "clients_of s dn = [client]"
      by (cases "clients_of s dn") auto
    with True rm [of m] show ?thesis by simp
  next
    case False
    with assms(4) have "client \<notin> set (clients_of s m)"
      by (simp add: clients_of_def)
    then have "clients_of s' m = clients_of s m"
      using rm [of m] by (simp add: remove1_idem)
    with inv [of m] False assms(5) show ?thesis by auto
  qed
  then show ?thesis by (simp add: one_device_per_node_iff)
qed

lemma notify_remove_inv:
  assumes "one_device_per_node s"
  shows "one_device_per_node (snd (of_i2c_notify c t reg OF_RECONFIG_CHANGE_REMOVE dn s))"
proof (cases "dn \<in> of_populated s")
  case False
  with assms show ?thesis by (simp add: of_i2c_notify_def of_node_check_flag_def)
next
  case True
  let ?s0 = "log_call (BUS_FIND_DEVICE (Some dn)) s"
  from find_device_cases [of "Some dn" s] show ?thesis
  proof
    assume "of_find_i2c_device_by_node (Some dn) s = (None, ?s0)"
    with True have "snd (of_i2c_notify c t reg OF_RECONFIG_CHANGE_REMOVE dn s) = ?s0"
      by (simp add: of_i2c_notify_def of_node_check_flag_def)
    with assms one_device_per_node_cong [of ?s0 s] show ?thesis by simp
  next
    assume "\<exists>client. of_find_i2c_device_by_node (Some dn) s
         = (Some client, get_device client ?s0)
       \<and> find (\<lambda>d. of_dev_node_match d (Some dn)) (bus_devices s) = Some client
       \<and> client \<in> set (bus_devices s)
       \<and> dev_of_node client = Some dn
       \<and> i2c_verify_client client = Some client
       \<and> is_client client"
    then obtain client where
      f: "of_find_i2c_device_by_node (Some dn) s = (Some client, get_device client ?s0)"
      and cl: "client \<in> set (bus_devices s)" "dev_of_node client = Some dn" "is_client client"
      by blast
    let ?s' = "put_device client (i2c_unregister_device client (get_device client ?s0))"
    from True f have r: "snd (of_i2c_notify c t reg OF_RECONFIG_CHANGE_REMOVE dn s) = ?s'"
      by (simp add: of_i2c_notify_def of_node_check_flag_def)
    have "of_populated ?s' = of_populated s - {dn}"
      "bus_devices ?s' = remove1 client (bus_devices s)"
      using cl(2) by (simp_all add: i2c_unregister_device_def)
    with unregister_inv [OF assms cl(1) cl(3) cl(2), of ?s'] r show ?thesis by simp
  qed
qed

lemma notify_inv:
  assumes "one_device_per_node s"
  shows "one_device_per_node (snd (of_i2c_notify c t reg change dn s))"
proof (cases change)
  case OF_RECONFIG_CHANGE_ADD
  with notify_add_inv [OF assms] show ?thesis by simp
next
  case OF_RECONFIG_CHANGE_REMOVE
  with notify_remove_inv [OF assms] show ?thesis by simp
next
  case OF_RECONFIG_NO_CHANGE
  with assms show ?thesis by (simp add: of_i2c_notify_def)
qed

lemma register_devices_walk:
  "of_i2c_register_devices c t reg adap s
     = register_children c t reg adap (walked_children t adap) s"
  by (simp add: of_i2c_register_devices_def walked_children_def split: option.splits)

lemma register_devices_other_node:
  assumes "m \<in> of_populated s"
  shows "m \<in> of_populated (of_i2c_register_devices c t reg adap s)
     \<and> Some m \<notin> call_node ` set (new_calls s (of_i2c_register_devices c t reg adap s))
     \<and> clients_of (of_i2c_register_devices c t reg adap s) m = clients_of s m"
proof -
  from register_children_other_node [OF assms, of c t reg adap "walked_children t adap"]
  obtain ks where
    "m \<in> of_populated (register_children c t reg adap (walked_children t adap) s)"
    "calls (register_children c t reg adap (walked_children t adap) s) = calls s @ ks"
    "Some m \<notin> call_node ` set ks"
    "clients_of (register_children c t reg adap (walked_children t adap) s) m = clients_of s m"
    by blast
  then show ?thesis unfolding register_devices_walk by (simp add: new_calls_def)
qed

lemma register_devices_new_claim_backed:
  assumes "\<forall>nd\<in>set (walked_children t adap). build_returns_errno c t nd"
    and "m \<notin> of_populated s"
    and "m \<in> of_populated (of_i2c_register_devices c t reg adap s)"
  shows "clients_of (of_i2c_register_devices c t reg adap s) m \<noteq> []"
  using assms unfolding register_devices_walk
  by (rule register_children_new_claim_backed)

lemma notify_add_failed:
  assumes "fst (of_find_i2c_adapter_by_node (node_parent t dn) s) = Some adap"
    and "dn \<notin> of_populated s"
    and "registration_fails c t reg adap dn s"
  shows "\<exists>err ks. of_i2c_notify c t reg OF_RECONFIG_CHANGE_ADD dn s
           = (NOTIFIER_FROM_ERRNO err, s\<lparr>calls := calls s @ ks\<rparr>)"
proof -
  let ?s0 = "log_call (BUS_FIND_DEVICE (node_parent t dn)) s"
  let ?s1 = "get_device adap ?s0"
  let ?s2 = "?s1\<lparr>of_populated := insert dn (of_populated s)\<rparr>"
  have f: "of_find_i2c_adapter_by_node (node_parent t dn) s = (Some adap, ?s1)"
    using find_adapter_cases [of "node_parent t dn" s] assms(1) by auto
  have ts: "of_node_test_and_set_flag dn ?s1 = (False, ?s2)"
    using assms(2) by (simp add: of_node_test_and_set_flag_def)
  have "registration_fails c t reg adap dn ?s2"
    using assms(3) by (auto simp: registration_fails_def split: sum.splits)
  from register_device_failed [OF this] obtain err ks where
    rd: "of_i2c_register_device c t reg adap dn ?s2 = (Inl err, ?s2\<lparr>calls := calls ?s2 @ ks\<rparr>)"
    and ie: "IS_ERR (Inl err)"
    by blast
  have n: "of_i2c_notify c t reg OF_RECONFIG_CHANGE_ADD dn s
      = (NOTIFIER_FROM_ERRNO err,
         of_node_clear_flag dn (put_device adap (?s2\<lparr>calls := calls ?s2 @ ks\<rparr>)))"
    by (simp add: of_i2c_notify_def f ts rd ie PTR_ERR_def)
  have "of_node_clear_flag dn (put_device adap (?s2\<lparr>calls := calls ?s2 @ ks\<rparr>))
      = s\<lparr>calls := calls s @ (BUS_FIND_DEVICE (node_parent t dn) # ks)\<rparr>"
    using assms(2)
    by (simp add: of_node_clear_flag_def put_device_def get_device_def log_call_def)
  with n have "of_i2c_notify c t reg OF_RECONFIG_CHANGE_ADD dn s
      = (NOTIFIER_FROM_ERRNO err,
         s\<lparr>calls := calls s @ (BUS_FIND_DEVICE (node_parent t dn) # ks)\<rparr>)"
    by simp
  then show ?thesis by blast
qed

lemma notify_add_accepted:
  assumes "fst (of_find_i2c_adapter_by_node (node_parent t dn) s) = Some adap"
    and "dn \<notin> of_populated s"
    and "of_i2c_get_board_info c t dn = Inr info"
    and "reg (bus_devices s) adap info = Some p"
  shows "fst (of_i2c_notify c t reg OF_RECONFIG_CHANGE_ADD dn s) = NOTIFY_OK"
    and "of_populated (snd (of_i2c_notify c t reg OF_RECONFIG_CHANGE_ADD dn s))
           = insert dn (of_populated s)"
    and "bus_devices (snd (of_i2c_notify c t reg OF_RECONFIG_CHANGE_ADD dn s))
           = bus_devices s @ [Device p (Some dn) (Some adap) (I2C_CLIENT info)]"
    and "calls (snd (of_i2c_notify c t reg OF_RECONFIG_CHANGE_ADD dn s))
           = calls s @ [BUS_FIND_DEVICE (node_parent t dn), GET_BOARD_INFO dn,
                        I2C_NEW_DEVICE (dev_id adap) info]"
proof -
  let ?s0 = "log_call (BUS_FIND_DEVICE (node_parent t dn)) s"
  let ?s1 = "get_device adap ?s0"
  let ?s2 = "?s1\<lparr>of_populated := insert dn (of_populated s)\<rparr>"
  have f: "of_find_i2c_adapter_by_node (node_parent t dn) s = (Some adap, ?s1)"
    using find_adapter_cases [of "node_parent t dn" s] assms(1) by auto
  have ts: "of_node_test_and_set_flag dn ?s1 = (False, ?s2)"
    using assms(2) by (simp add: of_node_test_and_set_flag_def)
  have "reg (bus_devices ?s2) adap info = Some p" using assms(4) by simp
  with register_device_accepted [of c t dn info reg ?s2 adap p] assms(3)
  have rd: "of_i2c_register_device c t reg adap dn ?s2 =
           (Inr (Device p (Some dn) (Some adap) (I2C_CLIENT info)),
            ?s2\<lparr>bus_devices := bus_devices ?s2 @ [Device p (Some dn) (Some adap) (I2C_CLIENT info)],
              refcount := (refcount ?s2)(p := 1),
              calls := calls ?s2 @ [GET_BOARD_INFO dn, I2C_NEW_DEVICE (dev_id adap) info]\<rparr>)"
    by simp
  show "fst (of_i2c_notify c t reg OF_RECONFIG_CHANGE_ADD dn s) = NOTIFY_OK"
    by (simp add: of_i2c_notify_def f ts rd IS_ERR_def)
  show "of_populated (snd (of_i2c_notify c t reg OF_RECONFIG_CHANGE_ADD dn s))
           = insert dn (of_populated s)"
    by (simp add: of_i2c_notify_def f ts rd IS_ERR_def)
  show "bus_devices (snd (of_i2c_notify c t reg OF_RECONFIG_CHANGE_ADD dn s))
           = bus_devices s @ [Device p (Some dn) (Some adap) (I2C_CLIENT info)]"
    by (simp add: of_i2c_notify_def f ts rd IS_ERR_def)
  show "calls (snd (of_i2c_notify c t reg OF_RECONFIG_CHANGE_ADD dn s))
           = calls s @ [BUS_FIND_DEVICE (node_parent t dn), GET_BOARD_INFO dn,
                        I2C_NEW_DEVICE (dev_id adap) info]"
    by (simp add: of_i2c_notify_def f ts rd IS_ERR_def)
qed

lemma demo_adapter_found:
  "fst (of_find_i2c_adapter_by_node (node_parent (demo_tree raw hn) 5) demo_state)
     = Some demo_adapter"
  by (simp add: of_find_i2c_adapter_by_node_def bus_find_device_def demo_tree_def
        demo_state_def demo_adapter_def of_dev_or_parent_node_match_def i2c_verify_adapter_def)

section \<open>The Claim Flag: idempotence and rollback\<close>

text \<open>
  C1: once a node's Claim Flag is set, a further claim-and-register attempt on it is a
  no-op. On the add-event path the handler returns \<^verbatim>\<open>NOTIFY_OK\<close> and the state differs
  from the one before by the adapter lookup in the trace only; on the bulk path the loop
  body leaves the state as it is, and after the whole walk the node is still claimed, no
  descriptor build and no registration call for it is in the trace, and its clients are
  the same. Both operations keep the bus at no more than one client per node.
\<close>

theorem claimed_node_is_not_registered_again:
  assumes "nd \<in> of_populated s" and "one_device_per_node s"
  shows "of_i2c_notify c t reg OF_RECONFIG_CHANGE_ADD nd s
           = (NOTIFY_OK, log_call (BUS_FIND_DEVICE (node_parent t nd)) s)
         \<and> register_child c t reg adap nd s = s
         \<and> nd \<in> of_populated (of_i2c_register_devices c t reg adap s)
         \<and> Some nd \<notin> call_node ` set (new_calls s (of_i2c_register_devices c t reg adap s))
         \<and> clients_of (of_i2c_register_devices c t reg adap s) nd = clients_of s nd
         \<and> one_device_per_node (of_i2c_register_devices c t reg adap s)
         \<and> one_device_per_node (snd (of_i2c_notify c t reg change dn s))
         \<and> length (clients_of (of_i2c_register_devices c t reg adap s) m) \<le> 1
         \<and> length (clients_of (snd (of_i2c_notify c t reg change dn s)) m) \<le> 1"
proof -
  have a: "of_i2c_notify c t reg OF_RECONFIG_CHANGE_ADD nd s
           = (NOTIFY_OK, log_call (BUS_FIND_DEVICE (node_parent t nd)) s)"
    using assms(1) by (rule notify_add_claimed)
  have b: "register_child c t reg adap nd s = s"
    using assms(1) by (rule register_child_claimed)
  note w = register_devices_other_node [OF assms(1), of c t reg adap]
  have i1: "one_device_per_node (of_i2c_register_devices c t reg adap s)"
    using assms(2) by (rule register_devices_inv)
  have i2: "one_device_per_node (snd (of_i2c_notify c t reg change dn s))"
    using assms(2) by (rule notify_inv)
  have l1: "length (clients_of (of_i2c_register_devices c t reg adap s) m) \<le> 1"
    using i1 by (simp add: one_device_per_node_iff)
  have l2: "length (clients_of (snd (of_i2c_notify c t reg change dn s)) m) \<le> 1"
    using i2 by (simp add: one_device_per_node_iff)
  from a b w i1 i2 l1 l2 show ?thesis by simp
qed

theorem claimed_node_is_not_registered_again_witness:
  "of_i2c_notify linux_consts (demo_tree 0x50 False) accept_all OF_RECONFIG_CHANGE_ADD 3
       demo_state_claimed
     = (NOTIFY_OK, log_call (BUS_FIND_DEVICE (Some 2)) demo_state_claimed)
   \<and> clients_of (of_i2c_register_devices linux_consts (demo_tree 0x50 False) accept_all
         demo_adapter demo_state_claimed) 3 = [demo_client]"
proof -
  have 1: "3 \<in> of_populated demo_state_claimed"
    by (simp add: demo_state_claimed_def)
  have 2: "one_device_per_node demo_state_claimed"
    by (simp add: one_device_per_node_def clients_of_def is_client_def demo_state_claimed_def
          demo_adapter_def demo_client_def)
  have 3: "clients_of demo_state_claimed 3 = [demo_client]"
    by (simp add: clients_of_def is_client_def demo_state_claimed_def demo_adapter_def
          demo_client_def)
  have 4: "node_parent (demo_tree 0x50 False) 3 = Some 2"
    by (simp add: demo_tree_def)
  from claimed_node_is_not_registered_again
         [OF 1 2, of linux_consts "demo_tree 0x50 False" accept_all demo_adapter] 3 4
  show ?thesis by simp
qed

text \<open>
  C2: when a claim-and-register attempt on an unclaimed node fails (the descriptor build
  fails with an error code, or the registrar returns no device), the node is unclaimed
  again when the operation returns. The loop body of the bulk walk leaves flags and bus
  as they were; the add-event handler does too, leaves the reference counts as they were
  and returns the error; and after a whole bulk walk over children whose descriptor
  builds return 0 or an error code, every node that was unclaimed before and is claimed
  after has a client on the bus, so no failed attempt has left a flag behind.
\<close>

theorem failed_registration_clears_claim:
  assumes "nd \<notin> of_populated s"
  shows "(registration_fails c t reg adap nd s
            \<longrightarrow> nd \<notin> of_populated (register_child c t reg adap nd s)
                \<and> of_populated (register_child c t reg adap nd s) = of_populated s
                \<and> bus_devices (register_child c t reg adap nd s) = bus_devices s)
         \<and> (registration_fails c t reg adap nd s
              \<and> fst (of_find_i2c_adapter_by_node (node_parent t nd) s) = Some adap
            \<longrightarrow> nd \<notin> of_populated (snd (of_i2c_notify c t reg OF_RECONFIG_CHANGE_ADD nd s))
                \<and> of_populated (snd (of_i2c_notify c t reg OF_RECONFIG_CHANGE_ADD nd s))
                     = of_populated s
                \<and> bus_devices (snd (of_i2c_notify c t reg OF_RECONFIG_CHANGE_ADD nd s))
                     = bus_devices s
                \<and> refcount (snd (of_i2c_notify c t reg OF_RECONFIG_CHANGE_ADD nd s))
                     = refcount s
                \<and> (\<exists>err. fst (of_i2c_notify c t reg OF_RECONFIG_CHANGE_ADD nd s)
                             = NOTIFIER_FROM_ERRNO err))
         \<and> ((\<forall>ch\<in>set (walked_children t adap). build_returns_errno c t ch)
              \<and> nd \<in> of_populated (of_i2c_register_devices c t reg adap s)
            \<longrightarrow> clients_of (of_i2c_register_devices c t reg adap s) nd \<noteq> [])"
proof (intro conjI impI)
  assume f: "registration_fails c t reg adap nd s"
  from register_child_failed [OF assms f] obtain ks where
    r: "register_child c t reg adap nd s = s\<lparr>calls := calls s @ ks\<rparr>"
    by blast
  from r assms show "nd \<notin> of_populated (register_child c t reg adap nd s)" by simp
  from r show "of_populated (register_child c t reg adap nd s) = of_populated s" by simp
  from r show "bus_devices (register_child c t reg adap nd s) = bus_devices s" by simp
next
  assume h: "registration_fails c t reg adap nd s
     \<and> fst (of_find_i2c_adapter_by_node (node_parent t nd) s) = Some adap"
  from notify_add_failed [of t nd s adap c reg] h assms obtain err ks where
    n: "of_i2c_notify c t reg OF_RECONFIG_CHANGE_ADD nd s
          = (NOTIFIER_FROM_ERRNO err, s\<lparr>calls := calls s @ ks\<rparr>)"
    by blast
  from n assms
  show "nd \<notin> of_populated (snd (of_i2c_notify c t reg OF_RECONFIG_CHANGE_ADD nd s))"
    by simp
  from n show "of_populated (snd (of_i2c_notify c t reg OF_RECONFIG_CHANGE_ADD nd s))
      = of_populated s" by simp
  from n show "bus_devices (snd (of_i2c_notify c t reg OF_RECONFIG_CHANGE_ADD nd s))
      = bus_devices s" by simp
  from n show "refcount (snd (of_i2c_notify c t reg OF_RECONFIG_CHANGE_ADD nd s))
      = refcount s" by simp
  from n show "\<exists>err. fst (of_i2c_notify c t reg OF_RECONFIG_CHANGE_ADD nd s)
      = NOTIFIER_FROM_ERRNO err" by simp
next
  assume h: "(\<forall>ch\<in>set (walked_children t adap). build_returns_errno c t ch)
     \<and> nd \<in> of_populated (of_i2c_register_devices c t reg adap s)"
  from register_devices_new_claim_backed [of t adap c nd s reg] h assms
  show "clients_of (of_i2c_register_devices c t reg adap s) nd \<noteq> []"
    by blast
qed

theorem failed_registration_clears_claim_witness:
  "of_populated (register_child linux_consts (demo_tree 0x50 False) reject_all demo_adapter 3
      demo_state) = {}
   \<and> of_populated (snd (of_i2c_notify linux_consts (demo_tree_reg_error (- 22)) accept_all
        OF_RECONFIG_CHANGE_ADD 5 demo_state)) = {}
   \<and> (\<exists>err. fst (of_i2c_notify linux_consts (demo_tree_reg_error (- 22)) accept_all
        OF_RECONFIG_CHANGE_ADD 5 demo_state) = NOTIFIER_FROM_ERRNO err)
   \<and> clients_of (of_i2c_register_devices linux_consts (demo_tree 0x50 False) accept_all
        demo_adapter demo_state) 3 \<noteq> []"
proof -
  have u3: "3 \<notin> of_populated demo_state" and u5: "5 \<notin> of_populated demo_state"
    and e: "of_populated demo_state = {}"
    by (simp_all add: demo_state_def)
  have f3: "registration_fails linux_consts (demo_tree 0x50 False) reject_all demo_adapter 3
      demo_state"
    by (simp add: registration_fails_def reject_all_def of_i2c_get_board_info_def
          demo_tree_def linux_consts_def)
  have f5: "registration_fails linux_consts (demo_tree_reg_error (- 22)) accept_all
      demo_adapter 5 demo_state"
    by (simp add: registration_fails_def of_i2c_get_board_info_def demo_tree_reg_error_def
          demo_tree_def MAX_ERRNO_def)
  have a5: "fst (of_find_i2c_adapter_by_node (node_parent (demo_tree_reg_error (- 22)) 5)
      demo_state) = Some demo_adapter"
    by (simp add: of_find_i2c_adapter_by_node_def bus_find_device_def demo_tree_def
          demo_tree_reg_error_def demo_state_def demo_adapter_def
          of_dev_or_parent_node_match_def i2c_verify_adapter_def)
  have w: "\<forall>ch\<in>set (walked_children (demo_tree 0x50 False) demo_adapter).
      build_returns_errno linux_consts (demo_tree 0x50 False) ch"
    by (simp add: walked_children_def available_children_def of_get_child_by_name_def
          build_returns_errno_def of_i2c_get_board_info_def demo_tree_def demo_adapter_def
          linux_consts_def)
  have c3: "3 \<in> of_populated (of_i2c_register_devices linux_consts (demo_tree 0x50 False)
      accept_all demo_adapter demo_state)"
    by (simp add: of_i2c_register_devices_def of_get_child_by_name_def available_children_def
          register_child_def of_node_test_and_set_flag_def of_i2c_register_device_def
          of_i2c_get_board_info_def i2c_new_device_def accept_all_def log_call_def Let_def
          IS_ERR_def demo_tree_def demo_state_def demo_adapter_def linux_consts_def)
  from failed_registration_clears_claim
         [OF u3, of linux_consts "demo_tree 0x50 False" reject_all demo_adapter] f3 e
  have p1: "of_populated (register_child linux_consts (demo_tree 0x50 False) reject_all
      demo_adapter 3 demo_state) = {}"
    by simp
  from failed_registration_clears_claim
         [OF u5, of linux_consts "demo_tree_reg_error (- 22)" accept_all demo_adapter] f5 a5 e
  have p2: "of_populated (snd (of_i2c_notify linux_consts (demo_tree_reg_error (- 22))
        accept_all OF_RECONFIG_CHANGE_ADD 5 demo_state)) = {}
     \<and> (\<exists>err. fst (of_i2c_notify linux_consts (demo_tree_reg_error (- 22)) accept_all
        OF_RECONFIG_CHANGE_ADD 5 demo_state) = NOTIFIER_FROM_ERRNO err)"
    by simp
  from failed_registration_clears_claim
         [OF u3, of linux_consts "demo_tree 0x50 False" accept_all demo_adapter] w c3
  have p3: "clients_of (of_i2c_register_devices linux_consts (demo_tree 0x50 False) accept_all
        demo_adapter demo_state) 3 \<noteq> []"
    by blast
  from p1 p2 p3 show ?thesis by simp
qed

section \<open>End-to-end scenarios\<close>

text \<open>
  C4, as the claim states it, fails with the sentinel where the binding header puts it
  (bit 31): the cell \<^verbatim>\<open>0x1050\<close> carries no sentinel, so the add event registers a client
  with the address \<^verbatim>\<open>0x1050\<close> and without the ten-bit-address flag.
\<close>

theorem add_event_0x1050_has_no_sentinel:
  "fst (of_i2c_notify linux_consts (demo_tree 0x1050 False) accept_all OF_RECONFIG_CHANGE_ADD 5
         demo_state) = NOTIFY_OK
   \<and> bus_devices (snd (of_i2c_notify linux_consts (demo_tree 0x1050 False) accept_all
         OF_RECONFIG_CHANGE_ADD 5 demo_state))
       = [demo_adapter,
          Device 101 (Some 5) (Some demo_adapter)
            (I2C_CLIENT \<lparr>info_type = ''eeprom'', info_flags = 0, info_addr = 0x1050,
                          info_of_node = 5\<rparr>)]
   \<and> (0 :: u16) AND I2C_CLIENT_TEN linux_consts \<noteq> I2C_CLIENT_TEN linux_consts
   \<and> (0x1050 :: u16) \<noteq> 0x050"
proof -
  have i: "of_i2c_get_board_info linux_consts (demo_tree 0x1050 False) 5
      = Inr \<lparr>info_type = ''eeprom'', info_flags = 0, info_addr = 0x1050, info_of_node = 5\<rparr>"
    by (simp add: of_i2c_get_board_info_def demo_tree_def linux_consts_def)
  have u: "5 \<notin> of_populated demo_state" by (simp add: demo_state_def)
  have r: "accept_all (bus_devices demo_state) demo_adapter
      \<lparr>info_type = ''eeprom'', info_flags = 0, info_addr = 0x1050, info_of_node = 5\<rparr> = Some 101"
    by (simp add: accept_all_def demo_state_def)
  from notify_add_accepted(1,3)
         [of "demo_tree 0x1050 False" 5 demo_state demo_adapter linux_consts
            "\<lparr>info_type = ''eeprom'', info_flags = 0, info_addr = 0x1050, info_of_node = 5\<rparr>"
            accept_all 101]
       demo_adapter_found [of "0x1050" False] u i r
  show ?thesis by (simp add: demo_state_def linux_consts_def)
qed

text \<open>
  C4, amended: for a node whose numeric address attribute reads as a raw value with the
  ten-bit-address sentinel set and the own-slave-address sentinel clear, a successful
  add-event registration produces a Live Device whose descriptor has the
  ten-bit-address flag set and whose address is the low 16 bits of the raw value with
  the sentinel cleared. With the sentinel at bit 31 the raw value \<^verbatim>\<open>0x80000050\<close> gives
  the address \<^verbatim>\<open>0x050\<close>.
\<close>

theorem add_event_decodes_ten_bit_sentinel:
  assumes "fst (of_find_i2c_adapter_by_node (node_parent t dn) s) = Some adap"
    and "dn \<notin> of_populated s"
    and "of_modalias_node t dn = Some ty"
    and "of_property_read_u32 t dn ''reg'' = (0, raw)"
    and "raw AND I2C_TEN_BIT_ADDRESS c \<noteq> 0"
    and "raw AND I2C_OWN_SLAVE_ADDRESS c = 0"
    and "of_i2c_get_board_info c t dn = Inr info"
    and "reg (bus_devices s) adap info = Some p"
  shows "fst (of_i2c_notify c t reg OF_RECONFIG_CHANGE_ADD dn s) = NOTIFY_OK
         \<and> bus_devices (snd (of_i2c_notify c t reg OF_RECONFIG_CHANGE_ADD dn s))
             = bus_devices s @ [Device p (Some dn) (Some adap) (I2C_CLIENT info)]
         \<and> info_flags info AND I2C_CLIENT_TEN c = I2C_CLIENT_TEN c
         \<and> info_addr info = ucast (raw AND NOT (I2C_TEN_BIT_ADDRESS c))"
proof -
  have own: "(raw AND NOT (I2C_TEN_BIT_ADDRESS c)) AND I2C_OWN_SLAVE_ADDRESS c = 0"
    using assms(6) by (auto simp: bit_eq_iff bit_and_iff bit_not_iff)
  have "info_flags info AND I2C_CLIENT_TEN c = I2C_CLIENT_TEN c
        \<and> info_addr info = ucast (raw AND NOT (I2C_TEN_BIT_ADDRESS c))"
    using assms(3,4,5,7) own
    by (auto simp: of_i2c_get_board_info_def Let_def word_or_and_absorb word_or_and_keep)
  with notify_add_accepted(1,3) [of t dn s adap c info reg p] assms(1,2,7,8)
  show ?thesis by simp
qed

theorem add_event_decodes_ten_bit_sentinel_witness:
  "fst (of_i2c_notify linux_consts (demo_tree 0x80000050 False) accept_all
         OF_RECONFIG_CHANGE_ADD 5 demo_state) = NOTIFY_OK
   \<and> bus_devices (snd (of_i2c_notify linux_consts (demo_tree 0x80000050 False) accept_all
         OF_RECONFIG_CHANGE_ADD 5 demo_state))
       = [demo_adapter,
          Device 101 (Some 5) (Some demo_adapter)
            (I2C_CLIENT \<lparr>info_type = ''eeprom'', info_flags = 0x10, info_addr = 0x050,
                          info_of_node = 5\<rparr>)]"
proof -
  have i: "of_i2c_get_board_info linux_consts (demo_tree 0x80000050 False) 5
      = Inr \<lparr>info_type = ''eeprom'', info_flags = 0x10, info_addr = 0x050, info_of_node = 5\<rparr>"
    by (simp add: of_i2c_get_board_info_def demo_tree_def linux_consts_def)
  have u: "5 \<notin> of_populated demo_state" by (simp add: demo_state_def)
  have m: "of_modalias_node (demo_tree 0x80000050 False) 5 = Some ''eeprom''"
    and g: "of_property_read_u32 (demo_tree 0x80000050 False) 5 ''reg'' = (0, 0x80000050)"
    by (simp_all add: demo_tree_def)
  have b: "(0x80000050 :: u32) AND I2C_TEN_BIT_ADDRESS linux_consts \<noteq> 0"
    "(0x80000050 :: u32) AND I2C_OWN_SLAVE_ADDRESS linux_consts = 0"
    by (simp_all add: linux_consts_def)
  have r: "accept_all (bus_devices demo_state) demo_adapter
      \<lparr>info_type = ''eeprom'', info_flags = 0x10, info_addr = 0x050, info_of_node = 5\<rparr> = Some 101"
    by (simp add: accept_all_def demo_state_def)
  from add_event_decodes_ten_bit_sentinel
         [of "demo_tree 0x80000050 False" 5 demo_state demo_adapter "''eeprom''" "0x80000050"
            linux_consts
            "\<lparr>info_type = ''eeprom'', info_flags = 0x10, info_addr = 0x050, info_of_node = 5\<rparr>"
            accept_all 101]
       demo_adapter_found [of "0x80000050" False] u m g b i r
  show ?thesis by (simp add: demo_state_def)
qed

text \<open>
  C7: on an adapter whose node has a child named \<^verbatim>\<open>i2c-bus\<close> of which \<open>n1\<close> is the one
  enabled child (unclaimed, with a descriptor the registrar accepts) and \<open>n2\<close> is a
  disabled child (unclaimed), wherever the two stand among the children, the bulk walk
  registers exactly one device, the client for \<open>n1\<close>. Only \<open>n1\<close> is claimed; \<open>n2\<close>
  stays unclaimed, no call is made for it and it has no client, because the walk visits
  the available children only.
\<close>

theorem populate_skips_disabled_child:
  assumes "dev_of_node adap = Some an"
    and "of_get_child_by_name t an ''i2c-bus'' = Some b"
    and "filter (of_device_is_available t) (node_children t b) = [n1]"
    and "n2 \<in> set (node_children t b)"
    and "\<not> of_device_is_available t n2"
    and "n1 \<notin> of_populated s"
    and "n2 \<notin> of_populated s"
    and "of_i2c_get_board_info c t n1 = Inr info"
    and "reg (bus_devices s) adap info = Some p"
  shows "bus_devices (of_i2c_register_devices c t reg adap s)
           = bus_devices s @ [Device p (Some n1) (Some adap) (I2C_CLIENT info)]
         \<and> of_populated (of_i2c_register_devices c t reg adap s) = insert n1 (of_populated s)
         \<and> n2 \<notin> of_populated (of_i2c_register_devices c t reg adap s)
         \<and> calls (of_i2c_register_devices c t reg adap s)
             = calls s @ [GET_BOARD_INFO n1, I2C_NEW_DEVICE (dev_id adap) info]
         \<and> clients_of (of_i2c_register_devices c t reg adap s) n2 = clients_of s n2"
proof -
  have "n1 \<in> set (filter (of_device_is_available t) (node_children t b))"
    using assms(3) by simp
  then have "of_device_is_available t n1" by simp
  with assms(5) have ne: "n1 \<noteq> n2" by auto
  have av: "available_children t b = [n1]"
    using assms(3) by (simp add: available_children_def)
  have "of_i2c_register_devices c t reg adap s = register_child c t reg adap n1 s"
    using assms(1,2) av by (simp add: of_i2c_register_devices_def)
  with register_child_accepted [of n1 s c t info reg adap p] assms(6,7,8,9) ne show ?thesis
    by (simp add: clients_of_def)
qed

theorem populate_skips_disabled_child_witness:
  "bus_devices (of_i2c_register_devices linux_consts (demo_tree_disabled_first 0x50 False)
      accept_all demo_adapter demo_state)
     = [demo_adapter,
        Device 101 (Some 3) (Some demo_adapter)
          (I2C_CLIENT \<lparr>info_type = ''eeprom'', info_flags = 0, info_addr = 0x50,
                        info_of_node = 3\<rparr>)]
   \<and> of_populated (of_i2c_register_devices linux_consts (demo_tree_disabled_first 0x50 False)
        accept_all demo_adapter demo_state) = {3}
   \<and> calls (of_i2c_register_devices linux_consts (demo_tree_disabled_first 0x50 False)
        accept_all demo_adapter demo_state)
     = [GET_BOARD_INFO 3,
        I2C_NEW_DEVICE 10 \<lparr>info_type = ''eeprom'', info_flags = 0, info_addr = 0x50,
                             info_of_node = 3\<rparr>]
   \<and> clients_of (of_i2c_register_devices linux_consts (demo_tree_disabled_first 0x50 False)
        accept_all demo_adapter demo_state) 4 = []
   \<and> bus_devices (of_i2c_register_devices linux_consts (demo_tree 0x50 False)
      accept_all demo_adapter demo_state)
     = [demo_adapter,
        Device 101 (Some 3) (Some demo_adapter)
          (I2C_CLIENT \<lparr>info_type = ''eeprom'', info_flags = 0, info_addr = 0x50,
                        info_of_node = 3\<rparr>)]
   \<and> of_populated (of_i2c_register_devices linux_consts (demo_tree 0x50 False)
        accept_all demo_adapter demo_state) = {3}"
proof -
  let ?i = "\<lparr>info_type = ''eeprom'', info_flags = 0, info_addr = 0x50, info_of_node = 3\<rparr>"
  have 1: "dev_of_node demo_adapter = Some 1" by (simp add: demo_adapter_def)
  have 2: "of_get_child_by_name (demo_tree_disabled_first 0x50 False) 1 ''i2c-bus'' = Some 2"
    "of_get_child_by_name (demo_tree 0x50 False) 1 ''i2c-bus'' = Some 2"
    by (simp_all add: of_get_child_by_name_def demo_tree_disabled_first_def demo_tree_def)
  have 3: "filter (of_device_is_available (demo_tree_disabled_first 0x50 False))
             (node_children (demo_tree_disabled_first 0x50 False) 2) = [3]"
    "filter (of_device_is_available (demo_tree 0x50 False))
             (node_children (demo_tree 0x50 False) 2) = [3]"
    by (simp_all add: demo_tree_disabled_first_def demo_tree_def)
  have 4: "4 \<in> set (node_children (demo_tree_disabled_first 0x50 False) 2)"
    "4 \<in> set (node_children (demo_tree 0x50 False) 2)"
    by (simp_all add: demo_tree_disabled_first_def demo_tree_def)
  have 5: "\<not> of_device_is_available (demo_tree_disabled_first 0x50 False) 4"
    "\<not> of_device_is_available (demo_tree 0x50 False) 4"
    by (simp_all add: demo_tree_disabled_first_def demo_tree_def)
  have 6: "3 \<notin> of_populated demo_state" by (simp add: demo_state_def)
  have 7: "4 \<notin> of_populated demo_state" by (simp add: demo_state_def)
  have 8: "of_i2c_get_board_info linux_consts (demo_tree_disabled_first 0x50 False) 3 = Inr ?i"
    "of_i2c_get_board_info linux_consts (demo_tree 0x50 False) 3 = Inr ?i"
    by (simp_all add: of_i2c_get_board_info_def demo_tree_disabled_first_def demo_tree_def
          linux_consts_def)
  have 9: "accept_all (bus_devices demo_state) demo_adapter ?i = Some 101"
    by (simp add: accept_all_def demo_state_def)
  have 10: "clients_of demo_state 4 = []"
    by (simp add: clients_of_def demo_state_def demo_adapter_def)
  from 1 2(1) 3(1) 4(1) 5(1) 6 7 8(1) 9 10
    populate_skips_disabled_child [of demo_adapter 1 "demo_tree_disabled_first 0x50 False" 2 3 4
      demo_state linux_consts ?i accept_all 101]
  have a: "bus_devices (of_i2c_register_devices linux_consts
             (demo_tree_disabled_first 0x50 False) accept_all demo_adapter demo_state)
           = [demo_adapter, Device 101 (Some 3) (Some demo_adapter) (I2C_CLIENT ?i)]
     \<and> of_populated (of_i2c_register_devices linux_consts
             (demo_tree_disabled_first 0x50 False) accept_all demo_adapter demo_state) = {3}
     \<and> calls (of_i2c_register_devices linux_consts
             (demo_tree_disabled_first 0x50 False) accept_all demo_adapter demo_state)
           = [GET_BOARD_INFO 3, I2C_NEW_DEVICE 10 ?i]
     \<and> clients_of (of_i2c_register_devices linux_consts
             (demo_tree_disabled_first 0x50 False) accept_all demo_adapter demo_state) 4 = []"
    by (simp add: demo_state_def demo_adapter_def)
  from 1 2(2) 3(2) 4(2) 5(2) 6 7 8(2) 9
    populate_skips_disabled_child [of demo_adapter 1 "demo_tree 0x50 False" 2 3 4
      demo_state linux_consts ?i accept_all 101]
  have b: "bus_devices (of_i2c_register_devices linux_consts (demo_tree 0x50 False)
             accept_all demo_adapter demo_state)
           = [demo_adapter, Device 101 (Some 3) (Some demo_adapter) (I2C_CLIENT ?i)]
     \<and> of_populated (of_i2c_register_devices linux_consts (demo_tree 0x50 False)
             accept_all demo_adapter demo_state) = {3}"
    by (simp add: demo_state_def demo_adapter_def)
  from a b show ?thesis by simp
qed

section \<open>Lookups by node\<close>

text \<open>
  C9: when the registry's search finds an object that fails the type verification,
  \<^verbatim>\<open>of_find_i2c_device_by_node\<close> and \<^verbatim>\<open>of_find_i2c_adapter_by_node\<close> both return NULL
  and leave the state as the search found it but for the logged lookup: the reference
  taken by the search is released, every reference count is what it was. A non-NULL
  result is an object of the bus that passes the verification for the requested type.
\<close>

theorem lookup_returns_verified_type_only:
  "(find (\<lambda>d. of_dev_node_match d nd) (bus_devices s) = Some dev \<and> i2c_verify_client dev = None
      \<longrightarrow> of_find_i2c_device_by_node nd s = (None, log_call (BUS_FIND_DEVICE nd) s)
          \<and> refcount (snd (of_find_i2c_device_by_node nd s)) = refcount s)
   \<and> (find (\<lambda>d. of_dev_or_parent_node_match d nd) (bus_devices s) = Some dev
         \<and> i2c_verify_adapter dev = None
      \<longrightarrow> of_find_i2c_adapter_by_node nd s = (None, log_call (BUS_FIND_DEVICE nd) s)
          \<and> refcount (snd (of_find_i2c_adapter_by_node nd s)) = refcount s)
   \<and> (fst (of_find_i2c_device_by_node nd s) = Some d
      \<longrightarrow> i2c_verify_client d = Some d \<and> is_client d \<and> d \<in> set (bus_devices s))
   \<and> (fst (of_find_i2c_adapter_by_node nd s) = Some d
      \<longrightarrow> i2c_verify_adapter d = Some d \<and> dev_kind d = I2C_ADAPTER
          \<and> d \<in> set (bus_devices s))"
proof -
  have p1: "find (\<lambda>d. of_dev_node_match d nd) (bus_devices s) = Some dev
        \<and> i2c_verify_client dev = None
      \<longrightarrow> of_find_i2c_device_by_node nd s = (None, log_call (BUS_FIND_DEVICE nd) s)
          \<and> refcount (snd (of_find_i2c_device_by_node nd s)) = refcount s"
    by (simp add: of_find_i2c_device_by_node_def bus_find_device_def)
  have p2: "find (\<lambda>d. of_dev_or_parent_node_match d nd) (bus_devices s) = Some dev
         \<and> i2c_verify_adapter dev = None
      \<longrightarrow> of_find_i2c_adapter_by_node nd s = (None, log_call (BUS_FIND_DEVICE nd) s)
          \<and> refcount (snd (of_find_i2c_adapter_by_node nd s)) = refcount s"
    by (simp add: of_find_i2c_adapter_by_node_def bus_find_device_def)
  have p3: "fst (of_find_i2c_device_by_node nd s) = Some d
      \<longrightarrow> i2c_verify_client d = Some d \<and> is_client d \<and> d \<in> set (bus_devices s)"
    using find_device_cases [of nd s] by auto
  have p4: "fst (of_find_i2c_adapter_by_node nd s) = Some d
      \<longrightarrow> i2c_verify_adapter d = Some d \<and> dev_kind d = I2C_ADAPTER
          \<and> d \<in> set (bus_devices s)"
    using find_adapter_cases [of nd s] by auto
  from p1 p2 p3 p4 show ?thesis by blast
qed

theorem lookup_returns_verified_type_only_witness:
  "of_find_i2c_device_by_node (Some 1) demo_state_claimed
     = (None, log_call (BUS_FIND_DEVICE (Some 1)) demo_state_claimed)
   \<and> of_find_i2c_adapter_by_node (Some 3) demo_state_claimed
     = (None, log_call (BUS_FIND_DEVICE (Some 3)) demo_state_claimed)
   \<and> fst (of_find_i2c_device_by_node (Some 3) demo_state_claimed) = Some demo_client
   \<and> is_client demo_client
   \<and> fst (of_find_i2c_adapter_by_node (Some 1) demo_state_claimed) = Some demo_adapter
   \<and> dev_kind demo_adapter = I2C_ADAPTER"
proof -
  have a: "find (\<lambda>d. of_dev_node_match d (Some 1)) (bus_devices demo_state_claimed)
        = Some demo_adapter \<and> i2c_verify_client demo_adapter = None"
    by (simp add: demo_state_claimed_def demo_adapter_def demo_client_def of_dev_node_match_def
          i2c_verify_client_def)
  have b: "find (\<lambda>d. of_dev_or_parent_node_match d (Some 3)) (bus_devices demo_state_claimed)
        = Some demo_client \<and> i2c_verify_adapter demo_client = None"
    by (simp add: demo_state_claimed_def demo_adapter_def demo_client_def
          of_dev_or_parent_node_match_def i2c_verify_adapter_def)
  have c: "fst (of_find_i2c_device_by_node (Some 3) demo_state_claimed) = Some demo_client"
    by (simp add: of_find_i2c_device_by_node_def bus_find_device_def demo_state_claimed_def
          demo_adapter_def demo_client_def of_dev_node_match_def i2c_verify_client_def)
  have d: "fst (of_find_i2c_adapter_by_node (Some 1) demo_state_claimed) = Some demo_adapter"
    by (simp add: of_find_i2c_adapter_by_node_def bus_find_device_def demo_state_claimed_def
          demo_adapter_def demo_client_def of_dev_or_parent_node_match_def
          i2c_verify_adapter_def)
  show ?thesis
    using a b c d
      lookup_returns_verified_type_only [of "Some 1" demo_state_claimed demo_adapter demo_client]
      lookup_returns_verified_type_only [of "Some 3" demo_state_claimed demo_client demo_client]
      lookup_returns_verified_type_only [of "Some 1" demo_state_claimed demo_adapter demo_adapter]
    by simp
qed

end
